theory Spec2Isabelle
  imports Main "HOL-Library.Multiset"
begin

section \<open>Data model of main.go\<close>

text \<open>
  Go functions return a value together with an error; a call can also panic. An error is
  kept by its message. \<open>Return v err\<close> is the pair \<open>(v, err)\<close> of the Go
  signature, with \<open>None\<close> for \<open>nil\<close>; \<open>Abort\<close> is a run-time panic, which
  leaves the calling function at once.
\<close>

type_synonym error = string

datatype panic = IndexOutOfRange | NilDereference

datatype 'a outcome = Abort panic | Return 'a "error option"

text \<open>
  \<open>time.Time\<close> is taken as an instant counted from the zero value \<open>time.Time{}\<close>,
  so the zero value is \<open>0\<close>; the comparison \<open>==\<close> of two times is equality of instants.
\<close>

type_synonym Time = int

definition zeroTime :: Time where
  "zeroTime = 0"

definition MAX_RSS_POSTS_COUNT :: int where
  "MAX_RSS_POSTS_COUNT = 20"

record Channel =
  Name :: string
  Title :: string
  LastId :: int
  Link :: string
  Description :: string

record Post =
  Header :: string
  Content :: string
  Link :: string
  CreatedAt :: Time

record DbChannel =
  Id :: int
  Name :: string
  Title :: string
  LastId :: int
  Link :: string
  Description :: string

record DbPost =
  Id :: int
  Header :: string
  Content :: string
  Link :: string
  CreatedAt :: Time
  ChannelId :: int

text \<open>The zero values \<open>Channel{}\<close>, \<open>Post{}\<close> and \<open>DbChannel{}\<close>.\<close>

definition Channel_zero :: Channel where
  "Channel_zero = \<lparr>Channel.Name = [], Channel.Title = [], Channel.LastId = 0,
     Channel.Link = [], Channel.Description = []\<rparr>"

definition Post_zero :: Post where
  "Post_zero = \<lparr>Post.Header = [], Post.Content = [], Post.Link = [],
     Post.CreatedAt = zeroTime\<rparr>"

definition DbChannel_zero :: DbChannel where
  "DbChannel_zero = \<lparr>DbChannel.Id = 0, DbChannel.Name = [], DbChannel.Title = [],
     DbChannel.LastId = 0, DbChannel.Link = [], DbChannel.Description = []\<rparr>"

text \<open>
  The part of \<open>feeds.Feed\<close> and \<open>feeds.Item\<close> that \<open>generateFeed\<close> fills; the link
  \<open>&feeds.Link{Href: h}\<close> is kept as \<open>Some h\<close>, a nil link as \<open>None\<close>.
\<close>

record Item =
  ItemTitle :: string
  ItemLink :: "string option"
  ItemDescription :: string
  Created :: Time

record Feed =
  FeedTitle :: string
  FeedLink :: "string option"
  FeedDescription :: string
  Items :: "Item list"

definition Feed_zero :: Feed where
  "Feed_zero = \<lparr>FeedTitle = [], FeedLink = None, FeedDescription = [], Items = []\<rparr>"

section \<open>Library functions the program calls\<close>

subsection \<open>strings.Split and strings.Trim\<close>

text \<open>
  \<open>strings.Split(s, sep)\<close> for a separator of one byte, as in the only call
  \<open>strings.Split(dataPost, "/")\<close>: the pieces between the separators, at least one.
\<close>

fun Split :: "string \<Rightarrow> char \<Rightarrow> string list" where
  "Split [] sep = [[]]"
| "Split (c # cs) sep =
     (if c = sep then [] # Split cs sep
      else (case Split cs sep of [] \<Rightarrow> [[c]] | w # ws \<Rightarrow> (c # w) # ws))"

text \<open>
  \<open>strings.Trim(s, cutset)\<close>: \<open>s\<close> without the leading and trailing bytes that occur in
  \<open>cutset\<close>.
\<close>

definition Trim :: "string \<Rightarrow> string \<Rightarrow> string" where
  "Trim s cutset =
     rev (dropWhile (\<lambda>c. c \<in> set cutset) (rev (dropWhile (\<lambda>c. c \<in> set cutset) s)))"

subsection \<open>strconv.Atoi and strconv.Itoa\<close>

definition is_digit :: "char \<Rightarrow> bool" where
  "is_digit c = (48 \<le> (of_char c :: nat) \<and> (of_char c :: nat) \<le> 57)"

definition digit_value :: "char \<Rightarrow> int" where
  "digit_value c = int (of_char c) - 48"

definition digits_value :: "string \<Rightarrow> int" where
  "digits_value ds = foldl (\<lambda>n c. n * 10 + digit_value c) 0 ds"

definition has_sign :: "string \<Rightarrow> bool" where
  "has_sign s = (case s of [] \<Rightarrow> False | c # _ \<Rightarrow> c = CHR ''+'' \<or> c = CHR ''-'')"

definition is_negative :: "string \<Rightarrow> bool" where
  "is_negative s = (case s of [] \<Rightarrow> False | c # _ \<Rightarrow> c = CHR ''-'')"

text \<open>
  \<open>strconv.Atoi\<close> on a 64-bit platform: an optional sign and then decimal digits, at
  least one. A string of another shape is a syntax error with value 0; a number outside
  the range of \<open>int\<close> is a range error with the nearest bound as its value.
\<close>

definition Atoi :: "string \<Rightarrow> int outcome" where
  "Atoi s =
     (let body = (if has_sign s then tl s else s) in
      if body \<noteq> [] \<and> list_all is_digit body then
        (let n = (if is_negative s then - digits_value body else digits_value body) in
         if 2 ^ 63 - 1 < n then Return (2 ^ 63 - 1) (Some ''value out of range'')
         else if n < - (2 ^ 63) then Return (- (2 ^ 63)) (Some ''value out of range'')
         else Return n None)
      else Return 0 (Some ''invalid syntax''))"

definition digit_char :: "nat \<Rightarrow> char" where
  "digit_char d = char_of (48 + d)"

fun nat_digits :: "nat \<Rightarrow> string" where
  "nat_digits n = (if n < 10 then [digit_char n] else nat_digits (n div 10) @ [digit_char (n mod 10)])"

declare nat_digits.simps [simp del]

text \<open>\<open>strconv.Itoa\<close>: the decimal numeral of an integer.\<close>

definition Itoa :: "int \<Rightarrow> string" where
  "Itoa i = (if i < 0 then CHR ''-'' # nat_digits (nat (- i)) else nat_digits (nat i))"

section \<open>The remote pages\<close>

text \<open>
  A page is seen through the six selections the program makes on it, each in document
  order:
  \<^item> \<open>data_posts\<close>: for every \<open>.tgme_widget_message\<close> element, its \<open>data-post\<close>
    attribute (\<open>None\<close> when the element has none);
  \<^item> \<open>header_titles\<close>: for every \<open>.tgme_channel_info_header_title\<close> element, the text
    of its \<open>span\<close> descendants;
  \<^item> \<open>info_descriptions\<close>: the text of every \<open>.tgme_channel_info_description\<close>;
  \<^item> \<open>error_texts\<close>: the text of every \<open>.tgme_widget_message_error\<close>;
  \<^item> \<open>message_texts\<close>: the text of every \<open>.tgme_widget_message_text.js-message_text\<close>;
  \<^item> \<open>date_datetimes\<close>: for every \<open>.tgme_widget_message_date\<close> element, the
    \<open>datetime\<close> attribute of its first \<open>time\<close> descendant (\<open>None\<close> when there is
    no such descendant or attribute).
\<close>

record document =
  data_posts :: "string option list"
  header_titles :: "string list"
  info_descriptions :: "string list"
  error_texts :: "string list"
  message_texts :: "string list"
  date_datetimes :: "string option list"

text \<open>
  What \<open>http.Get\<close> followed by \<open>goquery.NewDocumentFromReader\<close> gives for a URL: the
  request fails, the body cannot be read into a document, or there is a document.
\<close>

datatype http_result = GetError error | BodyUnreadable error | Document document

text \<open>\<open>s.Attr(name)\<close> with its second result dropped: the empty string when absent.\<close>

definition Attr :: "string option \<Rightarrow> string" where
  "Attr a = (case a of None \<Rightarrow> [] | Some v \<Rightarrow> v)"

text \<open>An \<open>Each\<close> whose callback only assigns the element's value to a variable.\<close>

definition Each_assign :: "'a \<Rightarrow> 'a list \<Rightarrow> 'a" where
  "Each_assign init xs = foldl (\<lambda>_ x. x) init xs"

definition tgChannelPostUrl :: "string \<Rightarrow> int \<Rightarrow> string" where
  "tgChannelPostUrl channelName id' =
     ''https://t.me/'' @ channelName @ ''/'' @ Itoa id' @ ''?embed=1&mode=tme''"

definition tgChannelFeedUrl :: "string \<Rightarrow> string" where
  "tgChannelFeedUrl channelName = ''https://t.me/s/'' @ channelName"

section \<open>TelegramWebFetcher\<close>

text \<open>
  The callback of \<open>doc.Find(".tgme_widget_message").Each\<close> in \<open>FetchChannel\<close>, run
  over the elements with the variable \<open>lastId\<close> threaded through; \<open>None\<close> is the
  panic of \<open>split[1]\<close> on a slice of length one. The error of \<open>Atoi\<close> is dropped.
\<close>

fun each_message :: "string option list \<Rightarrow> int \<Rightarrow> int option" where
  "each_message [] lastId = Some lastId"
| "each_message (a # as) lastId =
     (let dataPost = Attr a; split = Split dataPost CHR ''/'' in
      if length split < 2 then None
      else
        (let currentId = (case Atoi (split ! 1) of Return v _ \<Rightarrow> v | Abort _ \<Rightarrow> 0) in
         each_message as (if lastId = - 1 \<or> currentId > lastId then currentId else lastId)))"

definition TelegramWebFetcher_FetchChannel ::
    "(string \<Rightarrow> http_result) \<Rightarrow> string \<Rightarrow> Channel outcome" where
  "TelegramWebFetcher_FetchChannel http_Get channelName =
     (let url = tgChannelFeedUrl channelName in
      case http_Get url of
        GetError err \<Rightarrow> Return Channel_zero (Some err)
      | BodyUnreadable err \<Rightarrow> Abort NilDereference
      | Document doc \<Rightarrow>
          (case each_message (data_posts doc) (- 1) of
             None \<Rightarrow> Abort IndexOutOfRange
           | Some lastId \<Rightarrow>
               if lastId = - 1 then Return Channel_zero (Some ''Can't parse channel page'')
               else
                 Return \<lparr>Channel.Name = channelName,
                   Channel.Title = Each_assign [] (header_titles doc),
                   Channel.LastId = lastId,
                   Channel.Link = url,
                   Channel.Description = Each_assign [] (info_descriptions doc)\<rparr> None))"

text \<open>
  The callback of \<open>doc.Find(".tgme_widget_message_date").Each\<close> in \<open>FetchPost\<close>:
  \<open>createdAt\<close> is assigned the result of \<open>time.Parse\<close>, which is the zero time when
  the parse fails; the error is printed. \<open>time.Parse\<close> itself is a parameter,
  \<open>Inl\<close> its error.
\<close>

definition layout :: string where
  "layout = ''2006-01-02T15:04:05Z07:00''"

definition each_date ::
    "(string \<Rightarrow> string \<Rightarrow> error + Time) \<Rightarrow> Time \<Rightarrow> string option list \<Rightarrow> Time" where
  "each_date time_Parse init ds =
     foldl (\<lambda>createdAt d.
        (case time_Parse layout (Attr d) of Inl err \<Rightarrow> zeroTime | Inr t \<Rightarrow> t)) init ds"

definition TelegramWebFetcher_FetchPost ::
    "(string \<Rightarrow> http_result) \<Rightarrow> (string \<Rightarrow> string \<Rightarrow> error + Time) \<Rightarrow>
     string \<Rightarrow> int \<Rightarrow> Post outcome" where
  "TelegramWebFetcher_FetchPost http_Get time_Parse channelName id' =
     (let url = tgChannelPostUrl channelName id' in
      case http_Get url of
        GetError err \<Rightarrow> Return Post_zero (Some err)
      | BodyUnreadable err \<Rightarrow> Return Post_zero (Some err)
      | Document doc \<Rightarrow>
          (let error_message = Each_assign [] (error_texts doc) in
           if error_message \<noteq> [] then Return Post_zero (Some error_message)
           else
             (let content = Each_assign [] (message_texts doc);
                  createdAt = each_date time_Parse zeroTime (date_datetimes doc);
                  headerContent =
                    (if length content > 100 then Trim (take 100 content) '' '' @ ''...''
                     else []);
                  content' = content @ [CHR 0x0A, CHR 0x0A] @ ''<a href='' @ [CHR 0x22] @ url
                    @ [CHR 0x22] @ ''>[link]</a>''
              in Return \<lparr>Post.Header = headerContent, Post.Content = content',
                   Post.Link = url, Post.CreatedAt = createdAt\<rparr> None)))"

text \<open>The interface \<open>Fetcher\<close>, and \<open>TelegramWebFetcher\<close> as one over a given network.\<close>

record Fetcher =
  FetchChannel :: "string \<Rightarrow> Channel outcome"
  FetchPost :: "string \<Rightarrow> int \<Rightarrow> Post outcome"

definition TelegramWebFetcher ::
    "(string \<Rightarrow> http_result) \<Rightarrow> (string \<Rightarrow> string \<Rightarrow> error + Time) \<Rightarrow> Fetcher" where
  "TelegramWebFetcher http_Get time_Parse =
     \<lparr>FetchChannel = TelegramWebFetcher_FetchChannel http_Get,
      FetchPost = TelegramWebFetcher_FetchPost http_Get time_Parse\<rparr>"

section \<open>The cache\<close>

text \<open>
  The interface \<open>Cache\<close> over a store of type \<open>'s\<close>: every method takes the store
  and returns it, changed or not, with its result.
\<close>

record 's Cache =
  GetChannel :: "string \<Rightarrow> 's \<Rightarrow> DbChannel outcome \<times> 's"
  SaveChannel :: "Channel \<Rightarrow> 's \<Rightarrow> DbChannel outcome \<times> 's"
  UpdateLastPostId :: "int \<Rightarrow> int \<Rightarrow> 's \<Rightarrow> unit outcome \<times> 's"
  GetPosts :: "int \<Rightarrow> int \<Rightarrow> 's \<Rightarrow> DbPost list outcome \<times> 's"
  SavePosts :: "int \<Rightarrow> Post list \<Rightarrow> 's \<Rightarrow> DbPost list outcome \<times> 's"

text \<open>
  The SQLite database of \<open>initDB\<close>: the rows of the two tables in insertion order, and
  for each table the largest row id handed out so far (\<open>AUTOINCREMENT\<close>).
\<close>

record db =
  channels_table :: "DbChannel list"
  channels_seq :: int
  posts_table :: "DbPost list"
  posts_seq :: int

definition db_empty :: db where
  "db_empty = \<lparr>channels_table = [], channels_seq = 0, posts_table = [], posts_seq = 0\<rparr>"

text \<open>
  \<open>SqliteCache\<close> on a database that answers every statement (no I/O fault, no lock):
  a statement fails only by its own meaning. \<open>QueryRow(...).Scan\<close> fails when no row
  has the name.
\<close>

definition SqliteCache_GetChannel :: "string \<Rightarrow> db \<Rightarrow> DbChannel outcome \<times> db" where
  "SqliteCache_GetChannel name s =
     (case find (\<lambda>r. DbChannel.Name r = name) (channels_table s) of
        None \<Rightarrow> (Return DbChannel_zero (Some ''sql: no rows in result set''), s)
      | Some channel \<Rightarrow> (Return channel None, s))"

text \<open>
  The \<open>INSERT\<close> fails when the name is taken (\<open>name TEXT UNIQUE\<close>); \<open>Exec\<close> then
  returns a nil result, and \<open>res.LastInsertId()\<close> panics.
\<close>

definition SqliteCache_SaveChannel :: "Channel \<Rightarrow> db \<Rightarrow> DbChannel outcome \<times> db" where
  "SqliteCache_SaveChannel channel s =
     (case find (\<lambda>r. DbChannel.Name r = Channel.Name channel) (channels_table s) of
        Some _ \<Rightarrow> (Abort NilDereference, s)
      | None \<Rightarrow>
          (let lastInsertId = channels_seq s + 1;
               dbChannel = \<lparr>DbChannel.Id = lastInsertId,
                 DbChannel.Name = Channel.Name channel,
                 DbChannel.Title = Channel.Title channel,
                 DbChannel.LastId = Channel.LastId channel,
                 DbChannel.Link = Channel.Link channel,
                 DbChannel.Description = Channel.Description channel\<rparr>
           in (Return dbChannel None,
               s\<lparr>channels_table := channels_table s @ [dbChannel],
                 channels_seq := lastInsertId\<rparr>)))"

definition SqliteCache_UpdateLastPostId :: "int \<Rightarrow> int \<Rightarrow> db \<Rightarrow> unit outcome \<times> db" where
  "SqliteCache_UpdateLastPostId channelId lastPostId s =
     (Return () None,
      s\<lparr>channels_table :=
          map (\<lambda>r. if DbChannel.Id r = channelId then r\<lparr>DbChannel.LastId := lastPostId\<rparr> else r)
            (channels_table s)\<rparr>)"

text \<open>
  \<open>SELECT id, header, content, link, createdAt FROM posts WHERE channelId = ? ORDER BY
  createdAt DESC LIMIT ?\<close>: the column \<open>channelId\<close> is not read, so the field stays
  zero. Rows with equal \<open>createdAt\<close> come in an order SQL leaves open; here the later
  inserted one first. A negative \<open>LIMIT\<close> is no limit.
\<close>

definition SqliteCache_GetPosts :: "int \<Rightarrow> int \<Rightarrow> db \<Rightarrow> DbPost list outcome \<times> db" where
  "SqliteCache_GetPosts channelId count' s =
     (let rows = filter (\<lambda>r. ChannelId r = channelId) (posts_table s);
          ordered = rev (sort_key DbPost.CreatedAt rows);
          limited = (if count' < 0 then ordered else take (nat count') ordered)
      in (Return (map (\<lambda>r. r\<lparr>ChannelId := 0\<rparr>) limited) None, s))"

text \<open>The loop of \<open>SavePosts\<close> inside its transaction, which commits.\<close>

fun insert_posts :: "int \<Rightarrow> Post list \<Rightarrow> db \<Rightarrow> DbPost list \<Rightarrow> DbPost list \<times> db" where
  "insert_posts channelId [] s savedPosts = (savedPosts, s)"
| "insert_posts channelId (post # rest) s savedPosts =
     (let insertedId = posts_seq s + 1;
          savedPost = \<lparr>DbPost.Id = insertedId, DbPost.Header = Post.Header post,
            DbPost.Content = Post.Content post, DbPost.Link = Post.Link post,
            DbPost.CreatedAt = Post.CreatedAt post, ChannelId = channelId\<rparr>
      in insert_posts channelId rest
           (s\<lparr>posts_table := posts_table s @ [savedPost], posts_seq := insertedId\<rparr>)
           (savedPosts @ [savedPost]))"

definition SqliteCache_SavePosts :: "int \<Rightarrow> Post list \<Rightarrow> db \<Rightarrow> DbPost list outcome \<times> db" where
  "SqliteCache_SavePosts channelId posts s =
     (case insert_posts channelId posts s [] of
        (savedPosts, s') \<Rightarrow> (Return savedPosts None, s'))"

definition SqliteCache :: "db Cache" where
  "SqliteCache =
     \<lparr>GetChannel = SqliteCache_GetChannel,
      SaveChannel = SqliteCache_SaveChannel,
      UpdateLastPostId = SqliteCache_UpdateLastPostId,
      GetPosts = SqliteCache_GetPosts,
      SavePosts = SqliteCache_SavePosts\<rparr>"

section \<open>prepareFeed\<close>

definition generateFeed :: "DbChannel \<Rightarrow> DbPost list \<Rightarrow> Feed" where
  "generateFeed channel posts =
     \<lparr>FeedTitle = DbChannel.Name channel,
      FeedLink = Some (DbChannel.Link channel),
      FeedDescription = DbChannel.Description channel,
      Items = map (\<lambda>post. \<lparr>ItemTitle = DbPost.Header post, ItemLink = Some (DbPost.Link post),
                 ItemDescription = DbPost.Content post, Created = DbPost.CreatedAt post\<rparr>) posts\<rparr>"

text \<open>
  The loop of the stale path, from the state \<open>(postId, posts)\<close>. Beside the final
  \<open>posts\<close> (the field \<open>collected\<close>) and a panic of \<open>FetchPost\<close>, if any, the result records two traces of the
  run: \<open>downloads\<close>, the ids \<open>FetchPost\<close> was called with (one \<open>Download Post\<close>
  line each), and \<open>appended\<close>, the ids whose post \<open>append\<close> added to \<open>posts\<close>.
\<close>

record walk_result =
  downloads :: "int list"
  appended :: "int list"
  collected :: "Post list"
  panicked :: "panic option"

definition downloaded :: "int \<Rightarrow> walk_result \<Rightarrow> walk_result" where
  "downloaded postId r = r\<lparr>downloads := postId # downloads r\<rparr>"

definition was_appended :: "int \<Rightarrow> walk_result \<Rightarrow> walk_result" where
  "was_appended postId r = r\<lparr>appended := postId # appended r\<rparr>"

function walk :: "Fetcher \<Rightarrow> string \<Rightarrow> int \<Rightarrow> int \<Rightarrow> Post list \<Rightarrow> walk_result" where
  "walk fetcher name cursor postId posts =
     (if postId > 0 \<and> int (length posts) < MAX_RSS_POSTS_COUNT then
        (case FetchPost fetcher name postId of
           Abort p \<Rightarrow>
             \<lparr>downloads = [postId], appended = [], collected = posts, panicked = Some p\<rparr>
         | Return post err \<Rightarrow>
             if err \<noteq> None then
               downloaded postId (walk fetcher name cursor (postId - 1) posts)
             else if length posts > 0 \<and> Post.CreatedAt post = Post.CreatedAt (last posts) then
               downloaded postId (walk fetcher name cursor (postId - 1) posts)
             else if postId - 1 = cursor then
               \<lparr>downloads = [postId], appended = [], collected = posts, panicked = None\<rparr>
             else
               downloaded postId (was_appended postId
                 (walk fetcher name cursor (postId - 1) (posts @ [post]))))
      else \<lparr>downloads = [], appended = [], collected = posts, panicked = None\<rparr>)"
  by pat_completeness auto
termination
  by (relation "measure (\<lambda>(fetcher, name, cursor, postId, posts). nat postId)") auto

declare walk.simps [simp del]

text \<open>
  \<open>prepareFeed\<close> returns the feed and the error, the ids of the \<open>FetchPost\<close> calls it
  made, and the store. \<open>feed := &feeds.Feed{}\<close> is \<open>Feed_zero\<close>.
\<close>

definition prepareFeed ::
    "string \<Rightarrow> 's Cache \<Rightarrow> Fetcher \<Rightarrow> 's \<Rightarrow> Feed outcome \<times> int list \<times> 's" where
  "prepareFeed channelName cache fetcher s =
     (case FetchChannel fetcher channelName of
        Abort p \<Rightarrow> (Abort p, [], s)
      | Return channel err \<Rightarrow>
          if err = None then
            (case GetChannel cache channelName s of
               (Abort p, s1) \<Rightarrow> (Abort p, [], s1)
             | (Return found err1, s1) \<Rightarrow>
                 (case (if err1 \<noteq> None then
                          SaveChannel cache
                            \<lparr>Channel.Name = Channel.Name channel,
                             Channel.Title = Channel.Title channel,
                             Channel.LastId = 0,
                             Channel.Link = Channel.Link channel,
                             Channel.Description = Channel.Description channel\<rparr> s1
                        else (Return found err1, s1)) of
                    (Abort p, s2) \<Rightarrow> (Abort p, [], s2)
                  | (Return dbCachedChannel _, s2) \<Rightarrow>
                      if DbChannel.LastId dbCachedChannel = Channel.LastId channel then
                        (case GetPosts cache (DbChannel.Id dbCachedChannel) MAX_RSS_POSTS_COUNT s2 of
                           (Abort p, s3) \<Rightarrow> (Abort p, [], s3)
                         | (Return dbPosts err2, s3) \<Rightarrow>
                             if err2 = None then
                               (Return (generateFeed dbCachedChannel dbPosts) None, [], s3)
                             else (Return Feed_zero err2, [], s3))
                      else
                        (let w = walk fetcher (Channel.Name channel)
                                   (DbChannel.LastId dbCachedChannel) (Channel.LastId channel) []
                         in case panicked w of
                              Some p \<Rightarrow> (Abort p, downloads w, s2)
                            | None \<Rightarrow>
                                (case UpdateLastPostId cache (DbChannel.Id dbCachedChannel)
                                        (Channel.LastId channel) s2 of
                                   (Abort p, s3) \<Rightarrow> (Abort p, downloads w, s3)
                                 | (Return _ _, s3) \<Rightarrow>
                                     (case SavePosts cache (DbChannel.Id dbCachedChannel) (collected w) s3 of
                                        (Abort p, s4) \<Rightarrow> (Abort p, downloads w, s4)
                                      | (Return newDbPosts err3, s4) \<Rightarrow>
                                          if err3 \<noteq> None then
                                            (Return Feed_zero None, downloads w, s4)
                                          else
                                            (Return (generateFeed dbCachedChannel newDbPosts) None,
                                             downloads w, s4))))))
          else (Return Feed_zero err, [], s))"

text \<open>
  A sequence of \<open>prepareFeed\<close> calls, each with the channel name it is asked for and the
  remote as that call finds it: the stores after each call.
\<close>

fun syncs :: "'s Cache \<Rightarrow> (string \<times> Fetcher) list \<Rightarrow> 's \<Rightarrow> 's list" where
  "syncs cache [] s = []"
| "syncs cache ((channelName, fetcher) # calls) s =
     (let s' = snd (snd (prepareFeed channelName cache fetcher s)) in s' # syncs cache calls s')"

text \<open>
  The cursor the database holds for a channel name: the \<open>lastId\<close> of its row, and 0,
  the value a new row starts with, when there is none.
\<close>

definition stored_cursor :: "string \<Rightarrow> db \<Rightarrow> int" where
  "stored_cursor name s =
     (case find (\<lambda>r. DbChannel.Name r = name) (channels_table s) of
        None \<Rightarrow> 0
      | Some channel \<Rightarrow> DbChannel.LastId channel)"

section \<open>Concrete remotes and stores\<close>

text \<open>
  The listing page of the scenario in the specification: three messages, with the
  markers \<open>lexfridman/291\<close>, \<open>lexfridman/293\<close> and \<open>lexfridman/290\<close>.
\<close>

definition listing_lexfridman :: document where
  "listing_lexfridman =
     \<lparr>data_posts = [Some ''lexfridman/291'', Some ''lexfridman/293'', Some ''lexfridman/290''],
      header_titles = [''Lex Fridman''],
      info_descriptions = [''Host of Lex Fridman Podcast.''],
      error_texts = [], message_texts = [], date_datetimes = []\<rparr>"

text \<open>A listing page with no message, and one whose second message has a marker without a slash.\<close>

definition listing_empty :: document where
  "listing_empty = listing_lexfridman\<lparr>data_posts := []\<rparr>"

definition listing_no_slash :: document where
  "listing_no_slash = listing_lexfridman\<lparr>data_posts := [Some ''lexfridman/291'', Some ''lexfridman'']\<rparr>"

text \<open>
  A stand-in for \<open>time.Parse\<close> that reads one timestamp and rejects every other
  string, and the page of a post whose text has a space as its 100th byte.
\<close>

definition time_Parse_example :: "string \<Rightarrow> string \<Rightarrow> error + Time" where
  "time_Parse_example lay v =
     (if lay = layout \<and> v = ''2023-06-16T17:37:03+00:00'' then Inr 63822533823
      else Inl ''cannot parse'')"

definition post_page_272 :: document where
  "post_page_272 =
     \<lparr>data_posts = [], header_titles = [], info_descriptions = [], error_texts = [],
      message_texts = [replicate 99 CHR ''a'' @ '' bc''],
      date_datetimes = [Some ''2023-06-16T17:37:03+00:00'']\<rparr>"


text \<open>The page of a post with a short text and no date element.\<close>

definition post_page_no_date :: document where
  "post_page_no_date = post_page_272\<lparr>message_texts := [''hello''], date_datetimes := []\<rparr>"

definition post_no_date :: Post where
  "post_no_date =
     \<lparr>Post.Header = [],
       Post.Content = ''hello'' @ [CHR 0x0A, CHR 0x0A] @
         ''<a href='' @ [CHR 0x22] @ ''https://t.me/lexfridman/272?embed=1&mode=tme'' @
         [CHR 0x22] @ ''>[link]</a>'',
       Post.Link = ''https://t.me/lexfridman/272?embed=1&mode=tme'',
       Post.CreatedAt = zeroTime\<rparr>"

text \<open>
  A remote whose listing has head id 3 and whose post 2 is gone: \<open>FetchPost\<close> fails
  for id 2 and returns a post with a time of its own for every other id.
\<close>

definition channel_head_3 :: Channel where
  "channel_head_3 = \<lparr>Channel.Name = ''lexfridman'', Channel.Title = ''Lex Fridman'',
     Channel.LastId = 3, Channel.Link = ''https://t.me/s/lexfridman'',
     Channel.Description = []\<rparr>"

definition post_at :: "int \<Rightarrow> Post" where
  "post_at i = \<lparr>Post.Header = [], Post.Content = Itoa i,
     Post.Link = tgChannelPostUrl ''lexfridman'' i, Post.CreatedAt = 1000 + i\<rparr>"

definition remote_gap :: Fetcher where
  "remote_gap =
     \<lparr>FetchChannel = (\<lambda>channelName. Return channel_head_3 None),
      FetchPost = (\<lambda>channelName i.
         if i = 2 then Return Post_zero (Some ''Post not found'') else Return (post_at i) None)\<rparr>"

text \<open>
  Databases that hold the channel with cursor 1, with cursor 5, with cursor 3 and posts, and
  with cursor 290.
\<close>

definition store_cursor_1 :: db where
  "store_cursor_1 =
     \<lparr>channels_table = [\<lparr>DbChannel.Id = 1, DbChannel.Name = ''lexfridman'',
        DbChannel.Title = ''Lex Fridman'', DbChannel.LastId = 1,
        DbChannel.Link = ''https://t.me/s/lexfridman'', DbChannel.Description = []\<rparr>],
      channels_seq = 1,
      posts_table = [], posts_seq = 0\<rparr>"

definition store_cursor_5 :: db where
  "store_cursor_5 =
     \<lparr>channels_table = [\<lparr>DbChannel.Id = 1, DbChannel.Name = ''lexfridman'',
        DbChannel.Title = ''Lex Fridman'', DbChannel.LastId = 5,
        DbChannel.Link = ''https://t.me/s/lexfridman'', DbChannel.Description = []\<rparr>],
      channels_seq = 1,
      posts_table = [], posts_seq = 0\<rparr>"

definition row_of :: "int \<Rightarrow> int \<Rightarrow> Time \<Rightarrow> DbPost" where
  "row_of i channelId t =
     \<lparr>DbPost.Id = i, DbPost.Header = [], DbPost.Content = Itoa i, DbPost.Link = [],
      DbPost.CreatedAt = t, ChannelId = channelId\<rparr>"

definition store_cursor_3 :: db where
  "store_cursor_3 =
     \<lparr>channels_table = [\<lparr>DbChannel.Id = 1, DbChannel.Name = ''lexfridman'',
        DbChannel.Title = ''Lex Fridman'', DbChannel.LastId = 3,
        DbChannel.Link = ''https://t.me/s/lexfridman'', DbChannel.Description = []\<rparr>],
      channels_seq = 1,
      posts_table = [row_of 1 1 1001, row_of 2 2 1002, row_of 3 1 1003],
      posts_seq = 3\<rparr>"

definition store_cursor_290 :: db where
  "store_cursor_290 =
     \<lparr>channels_table = [\<lparr>DbChannel.Id = 1, DbChannel.Name = ''lexfridman'',
        DbChannel.Title = ''Lex Fridman'', DbChannel.LastId = 290,
        DbChannel.Link = ''https://t.me/s/lexfridman'',
        DbChannel.Description = ''Host of Lex Fridman Podcast.''\<rparr>],
      channels_seq = 1,
      posts_table = [], posts_seq = 0\<rparr>"

text \<open>A cache whose \<open>SavePosts\<close> fails, as on a locked database; the rest is \<open>SqliteCache\<close>.\<close>

definition SqliteCache_locked :: "db Cache" where
  "SqliteCache_locked =
     SqliteCache\<lparr>SavePosts := (\<lambda>channelId posts s. (Return [] (Some ''database is locked''), s))\<rparr>"

section \<open>Notions the properties are stated with\<close>

text \<open>The post \<open>FetchPost\<close> returns for an id.\<close>

definition fetched_post :: "Fetcher \<Rightarrow> string \<Rightarrow> int \<Rightarrow> Post" where
  "fetched_post fetcher name i =
     (case FetchPost fetcher name i of Return post err \<Rightarrow> post | Abort p \<Rightarrow> Post_zero)"

text \<open>
  What SQLite keeps true of the table \<open>channels\<close>: the ids are distinct (\<open>PRIMARY KEY\<close>)
  and none is larger than the sequence (\<open>AUTOINCREMENT\<close>).
\<close>

definition wf_db :: "db \<Rightarrow> bool" where
  "wf_db s = (distinct (map DbChannel.Id (channels_table s)) \<and>
     list_all (\<lambda>r. DbChannel.Id r \<le> channels_seq s) (channels_table s))"

text \<open>
  The head lookup of a call does not fall behind the store: when it returns a channel, the
  channel has the name asked for and its head id is not below the cursor stored for it.
\<close>

definition head_not_behind :: "string \<Rightarrow> Fetcher \<Rightarrow> db \<Rightarrow> bool" where
  "head_not_behind channelName fetcher s =
     (case FetchChannel fetcher channelName of
        Abort p \<Rightarrow> True
      | Return channel err \<Rightarrow>
          (case err of
             Some e \<Rightarrow> True
           | None \<Rightarrow> Channel.Name channel = channelName \<and>
               stored_cursor channelName s \<le> Channel.LastId channel))"

fun heads_not_behind :: "(string \<times> Fetcher) list \<Rightarrow> db \<Rightarrow> bool" where
  "heads_not_behind [] s = True"
| "heads_not_behind ((channelName, fetcher) # calls) s =
     (head_not_behind channelName fetcher s \<and>
      heads_not_behind calls (snd (snd (prepareFeed channelName SqliteCache fetcher s))))"

abbreviation set_cursor :: "int \<Rightarrow> int \<Rightarrow> DbChannel \<Rightarrow> DbChannel" where
  "set_cursor i v \<equiv> (\<lambda>r. if DbChannel.Id r = i then r\<lparr>DbChannel.LastId := v\<rparr> else r)"

text \<open>
  The store \<open>prepareFeed\<close> leaves, once the row \<open>dbc\<close> of the channel is at hand: the
  store as it was on the fresh path and when \<open>FetchPost\<close> panics, and the store after
  \<open>UpdateLastPostId\<close> and \<open>SavePosts\<close> otherwise.
\<close>

definition after_walk :: "Fetcher \<Rightarrow> Channel \<Rightarrow> DbChannel \<Rightarrow> db \<Rightarrow> db" where
  "after_walk fetcher channel dbc s =
     (let w = walk fetcher (Channel.Name channel) (DbChannel.LastId dbc) (Channel.LastId channel) []
      in if DbChannel.LastId dbc = Channel.LastId channel then s
         else if panicked w \<noteq> None then s
         else snd (SqliteCache_SavePosts (DbChannel.Id dbc) (collected w)
                (snd (SqliteCache_UpdateLastPostId (DbChannel.Id dbc) (Channel.LastId channel) s))))"

text \<open>The row \<open>SaveChannel\<close> inserts for a channel not seen before, and the store with it.\<close>

definition new_row :: "Channel \<Rightarrow> db \<Rightarrow> DbChannel" where
  "new_row channel s =
     \<lparr>DbChannel.Id = channels_seq s + 1, DbChannel.Name = Channel.Name channel,
      DbChannel.Title = Channel.Title channel, DbChannel.LastId = 0,
      DbChannel.Link = Channel.Link channel,
      DbChannel.Description = Channel.Description channel\<rparr>"

definition with_new_row :: "Channel \<Rightarrow> db \<Rightarrow> db" where
  "with_new_row channel s =
     s\<lparr>channels_table := channels_table s @ [new_row channel s],
       channels_seq := channels_seq s + 1\<rparr>"

text \<open>
  The scenario of the specification: the remote head id is 293 and the five newest posts
  are fetched, every older one fails.
\<close>

definition channel_head_293 :: Channel where
  "channel_head_293 = \<lparr>Channel.Name = ''lexfridman'', Channel.Title = ''Lex Fridman'',
     Channel.LastId = 293, Channel.Link = ''https://t.me/s/lexfridman'',
     Channel.Description = ''Host of Lex Fridman Podcast.''\<rparr>"

definition remote_293 :: Fetcher where
  "remote_293 =
     \<lparr>FetchChannel = (\<lambda>channelName. Return channel_head_293 None),
      FetchPost = (\<lambda>channelName i.
         if 289 \<le> i then Return (post_at i) None else Return Post_zero (Some ''Post not found''))\<rparr>"

text \<open>A network that serves the listing page at the channel's URL and a post page elsewhere.\<close>

definition web_lexfridman :: "string \<Rightarrow> http_result" where
  "web_lexfridman url =
     (if url = ''https://t.me/s/lexfridman'' then Document listing_lexfridman
      else Document post_page_272)"

section \<open>Properties of the library functions\<close>

lemma Split_not_Nil: "Split s c \<noteq> []"
  by (induction s) (auto split: list.splits)

lemma length_Split_less_2: "length (Split s c) < 2 \<longleftrightarrow> c \<notin> set s"
proof (induction s)
  case Nil
  show ?case by simp
next
  case (Cons x xs)
  show ?case
  proof (cases "x = c")
    case True
    have "length (Split xs c) \<noteq> 0" using Split_not_Nil [of xs c] by simp
    with True show ?thesis by simp
  next
    case False
    with Cons Split_not_Nil [of xs c] show ?thesis
      by (cases "Split xs c") auto
  qed
qed

lemma Split_no_sep: "c \<notin> set s \<Longrightarrow> Split s c = [s]"
  by (induction s) auto

lemma Split_append_sep: "c \<notin> set p \<Longrightarrow> Split (p @ c # w) c = p # Split w c"
  by (induction p) auto

lemma of_char_digit_char: "d < 10 \<Longrightarrow> (of_char (digit_char d) :: nat) = 48 + d"
  by (simp add: digit_char_def)

lemma is_digit_digit_char: "d < 10 \<Longrightarrow> is_digit (digit_char d)"
  by (simp add: is_digit_def of_char_digit_char)

lemma digit_value_digit_char: "d < 10 \<Longrightarrow> digit_value (digit_char d) = int d"
  by (simp add: digit_value_def of_char_digit_char)

lemma nat_digits_not_Nil: "nat_digits n \<noteq> []"
  by (subst nat_digits.simps) simp

lemma list_all_is_digit_nat_digits: "list_all is_digit (nat_digits n)"
proof (induction n rule: nat_digits.induct)
  case (1 n)
  show ?case
  proof (cases "n < 10")
    case True
    then show ?thesis by (subst nat_digits.simps) (simp add: is_digit_digit_char)
  next
    case False
    with 1 show ?thesis by (subst nat_digits.simps) (simp add: is_digit_digit_char)
  qed
qed

lemma digits_value_snoc: "digits_value (ds @ [c]) = digits_value ds * 10 + digit_value c"
  by (simp add: digits_value_def)

lemma digits_value_nat_digits: "digits_value (nat_digits n) = int n"
proof (induction n rule: nat_digits.induct)
  case (1 n)
  show ?case
  proof (cases "n < 10")
    case True
    then show ?thesis
      by (subst nat_digits.simps) (simp add: digits_value_def digit_value_digit_char)
  next
    case False
    with 1 have "digits_value (nat_digits (n div 10)) = int (n div 10)" by simp
    with False show ?thesis
      by (subst nat_digits.simps)
        (simp add: digits_value_snoc digit_value_digit_char zdiv_int zmod_int)
  qed
qed

lemma is_digit_not_sign:
  "is_digit c \<Longrightarrow> c \<noteq> CHR ''+'' \<and> c \<noteq> CHR ''-'' \<and> c \<noteq> CHR ''/''"
  by (auto simp: is_digit_def)

lemma has_sign_nat_digits: "\<not> has_sign (nat_digits n)"
  using list_all_is_digit_nat_digits [of n] nat_digits_not_Nil [of n]
  by (cases "nat_digits n") (auto simp: has_sign_def dest: is_digit_not_sign)

lemma is_negative_nat_digits: "\<not> is_negative (nat_digits n)"
  using list_all_is_digit_nat_digits [of n] nat_digits_not_Nil [of n]
  by (cases "nat_digits n") (auto simp: is_negative_def dest: is_digit_not_sign)

lemma slash_notin_nat_digits: "CHR ''/'' \<notin> set (nat_digits n)"
  using list_all_is_digit_nat_digits [of n]
  by (auto simp: list_all_iff dest: is_digit_not_sign)

text \<open>\<open>Atoi\<close> reads back what \<open>Itoa\<close> writes, for the non-negative values of \<open>int\<close>.\<close>

lemma Atoi_Itoa: "0 \<le> i \<Longrightarrow> i < 2 ^ 63 \<Longrightarrow> Atoi (Itoa i) = Return i None"
  by (simp add: Atoi_def Itoa_def Let_def has_sign_nat_digits is_negative_nat_digits
      nat_digits_not_Nil list_all_is_digit_nat_digits digits_value_nat_digits)

lemma Split_data_post:
  "CHR ''/'' \<notin> set p \<Longrightarrow> 0 \<le> i \<Longrightarrow> Split (p @ ''/'' @ Itoa i) CHR ''/'' = [p, Itoa i]"
  using Split_append_sep [of "CHR ''/''" p "Itoa i"] Split_no_sep [of "CHR ''/''" "Itoa i"]
    slash_notin_nat_digits [of "nat i"]
  by (simp add: Itoa_def)

section \<open>The head lookup\<close>

lemma each_message_None_iff:
  "each_message ds lastId = None \<longleftrightarrow> (\<exists>a\<in>set ds. CHR ''/'' \<notin> set (Attr a))"
proof (induction ds arbitrary: lastId)
  case Nil
  show ?case by simp
next
  case (Cons a ds)
  show ?case
    using length_Split_less_2 [of "Attr a" "CHR ''/''"]
    by (simp add: Let_def Cons.IH)
qed

lemma Max_insert_max:
  "Max (insert (max l a) (set ids)) = Max (insert (l::int) (set (a # ids)))"
  by (cases "ids = []") (simp_all add: max.assoc)

lemma each_message_step:
  assumes "CHR ''/'' \<notin> set p" "0 \<le> a" "a < 2 ^ 63" "0 \<le> l"
  shows "each_message (Some (p @ ''/'' @ Itoa a) # ds) l = each_message ds (max l a)"
proof -
  have sp: "Split (p @ CHR ''/'' # Itoa a) CHR ''/'' = [p, Itoa a]"
    using Split_data_post [OF assms(1,2)] by simp
  have "(if l = - 1 \<or> a > l then a else l) = max l a"
    using assms(4) by (simp add: max_def)
  then show ?thesis
    by (simp add: Attr_def sp Atoi_Itoa [OF assms(2,3)] Let_def)
qed

lemma each_message_first:
  assumes "CHR ''/'' \<notin> set p" "0 \<le> a" "a < 2 ^ 63"
  shows "each_message (Some (p @ ''/'' @ Itoa a) # ds) (- 1) = each_message ds a"
proof -
  have sp: "Split (p @ CHR ''/'' # Itoa a) CHR ''/'' = [p, Itoa a]"
    using Split_data_post [OF assms(1,2)] by simp
  show ?thesis
    by (simp add: Attr_def sp Atoi_Itoa [OF assms(2,3)] Let_def)
qed

lemma each_message_from:
  "CHR ''/'' \<notin> set p \<Longrightarrow> \<forall>a\<in>set ids. 0 \<le> a \<and> a < 2 ^ 63 \<Longrightarrow> 0 \<le> l \<Longrightarrow>
   each_message (map (\<lambda>a. Some (p @ ''/'' @ Itoa a)) ids) l = Some (Max (insert l (set ids)))"
proof (induction ids arbitrary: l)
  case Nil
  show ?case by simp
next
  case (Cons a ids)
  have a: "0 \<le> a" "a < 2 ^ 63" using Cons.prems(2) by auto
  have l': "0 \<le> max l a" using Cons.prems(3) by simp
  have rest: "\<forall>a\<in>set ids. 0 \<le> a \<and> a < 2 ^ 63" using Cons.prems(2) by simp
  have "each_message (map (\<lambda>a. Some (p @ ''/'' @ Itoa a)) (a # ids)) l =
      each_message (map (\<lambda>a. Some (p @ ''/'' @ Itoa a)) ids) (max l a)"
    using each_message_step [OF Cons.prems(1) a Cons.prems(3)] by simp
  also have "\<dots> = Some (Max (insert (max l a) (set ids)))"
    by (rule Cons.IH [OF Cons.prems(1) rest l'])
  finally show ?case by (simp only: Max_insert_max)
qed

lemma each_message_head:
  assumes "CHR ''/'' \<notin> set p" "\<forall>a\<in>set ids. 0 \<le> a \<and> a < 2 ^ 63"
  shows "each_message (map (\<lambda>a. Some (p @ ''/'' @ Itoa a)) ids) (- 1) =
     Some (if ids = [] then - 1 else Max (set ids))"
proof (cases ids)
  case Nil
  then show ?thesis by simp
next
  case (Cons a rest)
  have a: "0 \<le> a" "a < 2 ^ 63" using assms(2) Cons by auto
  have rest: "\<forall>a\<in>set rest. 0 \<le> a \<and> a < 2 ^ 63" using assms(2) Cons by simp
  have "each_message (map (\<lambda>a. Some (p @ ''/'' @ Itoa a)) ids) (- 1) =
      each_message (map (\<lambda>a. Some (p @ ''/'' @ Itoa a)) rest) a"
    using Cons each_message_first [OF assms(1) a] by simp
  also have "\<dots> = Some (Max (insert a (set rest)))"
    by (rule each_message_from [OF assms(1) rest a(1)])
  finally show ?thesis using Cons by simp
qed

text \<open>
  Claim C8. On a listing page whose messages carry the ids \<open>ids\<close>, each as the marker
  \<open>p/id\<close> with a non-negative id of type \<open>int\<close> in decimal and a prefix \<open>p\<close> without
  a slash, \<open>FetchChannel\<close> returns the channel with \<open>LastId\<close> the largest of the ids;
  when the page has no message it returns the error \<open>Can't parse channel page\<close>.
\<close>

theorem FetchChannel_head_is_max:
  assumes "CHR ''/'' \<notin> set p"
    and "\<forall>a\<in>set ids. 0 \<le> a \<and> a < 2 ^ 63"
    and "http_Get (tgChannelFeedUrl channelName) = Document doc"
    and "data_posts doc = map (\<lambda>a. Some (p @ ''/'' @ Itoa a)) ids"
  shows "TelegramWebFetcher_FetchChannel http_Get channelName =
     (if ids = [] then Return Channel_zero (Some ''Can't parse channel page'')
      else Return \<lparr>Channel.Name = channelName,
             Channel.Title = Each_assign [] (header_titles doc),
             Channel.LastId = Max (set ids),
             Channel.Link = tgChannelFeedUrl channelName,
             Channel.Description = Each_assign [] (info_descriptions doc)\<rparr> None)"
proof (cases "ids = []")
  case True
  with assms(3,4) show ?thesis
    by (simp add: TelegramWebFetcher_FetchChannel_def)
next
  case False
  have scan: "each_message (data_posts doc) (- 1) = Some (Max (set ids))"
    using each_message_head [OF assms(1,2)] False assms(4) by simp
  have "\<exists>a\<in>set ids. 0 \<le> a" using False assms(2) by (cases ids) auto
  then have "0 \<le> Max (set ids)" by (simp add: Max_ge_iff False)
  then have "Max (set ids) \<noteq> - 1" by simp
  with False assms(3) scan show ?thesis
    by (simp add: TelegramWebFetcher_FetchChannel_def)
qed

theorem FetchChannel_head_is_max_witness:
  "TelegramWebFetcher_FetchChannel (\<lambda>url. Document listing_lexfridman) ''lexfridman'' =
     Return \<lparr>Channel.Name = ''lexfridman'', Channel.Title = ''Lex Fridman'',
       Channel.LastId = 293, Channel.Link = ''https://t.me/s/lexfridman'',
       Channel.Description = ''Host of Lex Fridman Podcast.''\<rparr> None
   \<and> TelegramWebFetcher_FetchChannel (\<lambda>url. Document listing_empty) ''lexfridman'' =
     Return Channel_zero (Some ''Can't parse channel page'')"
proof -
  have p: "CHR ''/'' \<notin> set ''lexfridman''" by simp
  have ids: "\<forall>a\<in>set [291, 293, 290 :: int]. 0 \<le> a \<and> a < 2 ^ 63" by simp
  have none: "\<forall>a\<in>set ([] :: int list). 0 \<le> a \<and> a < 2 ^ 63" by simp
  have markers: "data_posts listing_lexfridman =
      map (\<lambda>a. Some (''lexfridman'' @ ''/'' @ Itoa a)) [291, 293, 290]"
    by code_simp
  have empty: "data_posts listing_empty = map (\<lambda>a. Some (''lexfridman'' @ ''/'' @ Itoa a)) []"
    by (simp add: listing_empty_def)
  show ?thesis
    using FetchChannel_head_is_max [OF p ids refl markers, of "''lexfridman''"]
      FetchChannel_head_is_max [OF p none refl empty, of "''lexfridman''"]
    by (simp add: listing_lexfridman_def listing_empty_def tgChannelFeedUrl_def
        Each_assign_def)
qed

text \<open>
  Claim C10. \<open>FetchChannel\<close> panics with an index out of range exactly when the page is
  read and some message element has a \<open>data-post\<close> attribute without a slash (an
  absent attribute counts as the empty string); so it returns a channel or an error
  only when every such attribute has one.
\<close>

theorem FetchChannel_aborts_iff_no_slash:
  "TelegramWebFetcher_FetchChannel http_Get channelName = Abort IndexOutOfRange \<longleftrightarrow>
     (\<exists>doc. http_Get (tgChannelFeedUrl channelName) = Document doc \<and>
        (\<exists>a\<in>set (data_posts doc). CHR ''/'' \<notin> set (Attr a)))"
proof (cases "http_Get (tgChannelFeedUrl channelName)")
  case (GetError e)
  then show ?thesis by (simp add: TelegramWebFetcher_FetchChannel_def)
next
  case (BodyUnreadable e)
  then show ?thesis by (simp add: TelegramWebFetcher_FetchChannel_def)
next
  case (Document doc)
  show ?thesis
  proof (cases "each_message (data_posts doc) (- 1)")
    case None
    with Document each_message_None_iff [of "data_posts doc" "- 1"] show ?thesis
      by (simp add: TelegramWebFetcher_FetchChannel_def)
  next
    case (Some l)
    with Document each_message_None_iff [of "data_posts doc" "- 1"] show ?thesis
      by (simp add: TelegramWebFetcher_FetchChannel_def)
  qed
qed

theorem FetchChannel_aborts_iff_no_slash_witness:
  "TelegramWebFetcher_FetchChannel (\<lambda>url. Document listing_no_slash) ''lexfridman'' =
     Abort IndexOutOfRange
   \<and> TelegramWebFetcher_FetchChannel (\<lambda>url. Document listing_lexfridman) ''lexfridman'' \<noteq>
     Abort IndexOutOfRange"
  using FetchChannel_aborts_iff_no_slash [of "\<lambda>url. Document listing_no_slash" "''lexfridman''"]
    FetchChannel_aborts_iff_no_slash [of "\<lambda>url. Document listing_lexfridman" "''lexfridman''"]
  by (simp add: listing_no_slash_def listing_lexfridman_def Attr_def)

section \<open>The single-item fetch\<close>

lemma Each_assign_last: "Each_assign init xs = (if xs = [] then init else last xs)"
  unfolding Each_assign_def by (induction xs arbitrary: init) auto

lemma each_date_last:
  "each_date time_Parse init ds =
     (if ds = [] then init
      else (case time_Parse layout (Attr (last ds)) of Inl err \<Rightarrow> zeroTime | Inr t \<Rightarrow> t))"
  unfolding each_date_def by (induction ds arbitrary: init) auto






text \<open>\<open>FetchPost\<close> on a page that was read.\<close>

lemma FetchPost_Document:
  assumes "http_Get (tgChannelPostUrl channelName id') = Document doc"
  shows "TelegramWebFetcher_FetchPost http_Get time_Parse channelName id' =
     (if Each_assign [] (error_texts doc) \<noteq> [] then
        Return Post_zero (Some (Each_assign [] (error_texts doc)))
      else
        Return \<lparr>Post.Header =
            (if length (Each_assign [] (message_texts doc)) > 100
             then Trim (take 100 (Each_assign [] (message_texts doc))) '' '' @ ''...'' else []),
          Post.Content = Each_assign [] (message_texts doc) @ [CHR 0x0A, CHR 0x0A] @ ''<a href=''
            @ [CHR 0x22] @ tgChannelPostUrl channelName id' @ [CHR 0x22] @ ''>[link]</a>'',
          Post.Link = tgChannelPostUrl channelName id',
          Post.CreatedAt = each_date time_Parse zeroTime (date_datetimes doc)\<rparr> None)"
  using assms by (simp add: TelegramWebFetcher_FetchPost_def Let_def)





text \<open>
  Claim C4, as stated, fails: the page \<open>post_page_no_date\<close> has no date element, and
  \<open>FetchPost\<close> returns a post, with the zero time as \<open>CreatedAt\<close>, and no error.
\<close>

theorem FetchPost_created_at_counterexample:
  "TelegramWebFetcher_FetchPost (\<lambda>url. Document post_page_no_date) time_Parse_example
     ''lexfridman'' 272 = Return post_no_date None
   \<and> date_datetimes post_page_no_date = []
   \<and> Post.CreatedAt post_no_date = zeroTime"
  by code_simp

text \<open>
  Claim C4, amended. On a page that is read and has no date element, or whose last date
  element has a \<open>datetime\<close> that \<open>time.Parse\<close> reads, \<open>FetchPost\<close> fails exactly
  when the text of the last error element is not empty; otherwise it returns a post and
  no error, and the \<open>CreatedAt\<close> of the post is the zero time when there is no date
  element and the time read from the last one when there is.
\<close>

theorem FetchPost_created_at:
  assumes "http_Get (tgChannelPostUrl channelName id') = Document doc"
    and "date_datetimes doc = [] \<or>
         time_Parse layout (Attr (last (date_datetimes doc))) = Inr t"
  shows "if error_texts doc = [] \<or> last (error_texts doc) = []
     then \<exists>post. TelegramWebFetcher_FetchPost http_Get time_Parse channelName id' = Return post None \<and>
            Post.CreatedAt post = (if date_datetimes doc = [] then zeroTime else t)
     else TelegramWebFetcher_FetchPost http_Get time_Parse channelName id' =
            Return Post_zero (Some (last (error_texts doc)))"
  using assms FetchPost_Document [of http_Get channelName id' doc time_Parse]
  by (auto simp: Each_assign_last each_date_last split: if_splits)

theorem FetchPost_created_at_witness:
  "\<exists>post. TelegramWebFetcher_FetchPost (\<lambda>url. Document post_page_272) time_Parse_example
       ''lexfridman'' 272 = Return post None \<and>
     Post.CreatedAt post = 63822533823"
proof -
  have d: "(\<lambda>url. Document post_page_272) (tgChannelPostUrl ''lexfridman'' 272) =
      Document post_page_272" by simp
  have p: "date_datetimes post_page_272 = [] \<or>
      time_Parse_example layout (Attr (last (date_datetimes post_page_272))) = Inr 63822533823"
    by (simp add: post_page_272_def Attr_def time_Parse_example_def)
  have e: "error_texts post_page_272 = [] \<or> last (error_texts post_page_272) = []"
    by (simp add: post_page_272_def)
  have n: "date_datetimes post_page_272 \<noteq> []" by (simp add: post_page_272_def)
  show ?thesis
    using FetchPost_created_at [of "\<lambda>url. Document post_page_272" "''lexfridman''" 272
        post_page_272 time_Parse_example 63822533823, OF d p] e n
    by (simp only: if_True if_False)
qed

section \<open>The walk of the stale path\<close>

lemma walk_boundary:
  assumes "0 \<le> cursor" "int (length posts) < MAX_RSS_POSTS_COUNT"
    and "FetchPost fetcher name (cursor + 1) = Return post None"
    and "posts = [] \<or> Post.CreatedAt post \<noteq> Post.CreatedAt (last posts)"
  shows "walk fetcher name cursor (cursor + 1) posts =
     \<lparr>downloads = [cursor + 1], appended = [], collected = posts, panicked = None\<rparr>"
  using assms by (subst walk.simps) auto

lemma boundary_never_appended:
  "cursor + 1 \<notin> set (appended (walk fetcher name cursor postId posts))"
proof (induction fetcher name cursor postId posts rule: walk.induct)
  case (1 fetcher name cursor postId posts)
  show ?case
  proof (cases "postId > 0 \<and> int (length posts) < MAX_RSS_POSTS_COUNT")
    case False
    then show ?thesis by (subst walk.simps) auto
  next
    case True
    show ?thesis
    proof (cases "FetchPost fetcher name postId")
      case (Abort p)
      with True show ?thesis by (subst walk.simps) auto
    next
      case (Return post err)
      with True 1 show ?thesis
        by (subst walk.simps) (auto simp: downloaded_def was_appended_def)
    qed
  qed
qed

lemma collected_appended:
  "collected (walk fetcher name cursor postId posts) =
     posts @ map (fetched_post fetcher name) (appended (walk fetcher name cursor postId posts))"
proof (induction fetcher name cursor postId posts rule: walk.induct)
  case (1 fetcher name cursor postId posts)
  show ?case
  proof (cases "postId > 0 \<and> int (length posts) < MAX_RSS_POSTS_COUNT")
    case False
    then show ?thesis by (subst (1 2) walk.simps) auto
  next
    case True
    show ?thesis
    proof (cases "FetchPost fetcher name postId")
      case (Abort p)
      with True show ?thesis by (subst (1 2) walk.simps) auto
    next
      case (Return post err)
      with True 1 show ?thesis
        by (subst (1 2) walk.simps) (auto simp: downloaded_def was_appended_def fetched_post_def)
    qed
  qed
qed

lemma appended_fetch_ok:
  "i \<in> set (appended (walk fetcher name cursor postId posts)) \<Longrightarrow>
   FetchPost fetcher name i = Return (fetched_post fetcher name i) None"
proof (induction fetcher name cursor postId posts rule: walk.induct)
  case (1 fetcher name cursor postId posts)
  show ?case
  proof (cases "postId > 0 \<and> int (length posts) < MAX_RSS_POSTS_COUNT")
    case False
    with "1.prems" show ?thesis by (subst (asm) walk.simps) auto
  next
    case True
    show ?thesis
    proof (cases "FetchPost fetcher name postId")
      case (Abort p)
      with True "1.prems" show ?thesis by (subst (asm) walk.simps) auto
    next
      case (Return post err)
      with True 1 show ?thesis
        by (subst (asm) walk.simps)
          (auto simp: downloaded_def was_appended_def fetched_post_def split: if_splits)
    qed
  qed
qed

lemma appended_downloaded:
  "set (appended (walk fetcher name cursor postId posts)) \<subseteq>
   set (downloads (walk fetcher name cursor postId posts))"
proof (induction fetcher name cursor postId posts rule: walk.induct)
  case (1 fetcher name cursor postId posts)
  show ?case
  proof (cases "postId > 0 \<and> int (length posts) < MAX_RSS_POSTS_COUNT")
    case False
    then show ?thesis by (subst (1 2) walk.simps) auto
  next
    case True
    show ?thesis
    proof (cases "FetchPost fetcher name postId")
      case (Abort p)
      with True show ?thesis by (subst (1 2) walk.simps) auto
    next
      case (Return post err)
      with True 1 show ?thesis
        by (subst (1 2) walk.simps) (auto simp: downloaded_def was_appended_def)
    qed
  qed
qed

lemma walk_never_panics:
  "(\<And>i p. FetchPost fetcher name i \<noteq> Abort p) \<Longrightarrow>
   panicked (walk fetcher name cursor postId posts) = None"
proof (induction fetcher name cursor postId posts rule: walk.induct)
  case (1 fetcher name cursor postId posts)
  show ?case
  proof (cases "postId > 0 \<and> int (length posts) < MAX_RSS_POSTS_COUNT")
    case False
    then show ?thesis by (subst walk.simps) auto
  next
    case True
    show ?thesis
    proof (cases "FetchPost fetcher name postId")
      case (Abort p)
      with "1.prems" show ?thesis by simp
    next
      case (Return post err)
      with True 1 show ?thesis
        by (subst walk.simps) (auto simp: downloaded_def was_appended_def)
    qed
  qed
qed

text \<open>
  Claim C1 at a failing input. The store holds cursor 1 and the remote head is 3; the fetch
  of post 2 fails. The loop skips the boundary test with \<open>continue\<close>, goes on to call
  \<open>FetchPost\<close> for id 1, which is the stored cursor, and appends its post again.
\<close>

theorem walk_fetches_stored_cursor:
  "stored_cursor ''lexfridman'' store_cursor_1 = 1
   \<and> FetchChannel remote_gap ''lexfridman'' = Return channel_head_3 None
   \<and> Channel.LastId channel_head_3 = 3
   \<and> FetchPost remote_gap ''lexfridman'' 2 = Return Post_zero (Some ''Post not found'')
   \<and> fst (snd (prepareFeed ''lexfridman'' SqliteCache remote_gap store_cursor_1)) = [3, 2, 1]
   \<and> appended (walk remote_gap ''lexfridman'' 1 3 []) = [3, 1]"
  by code_simp

text \<open>
  Claim C2 at a failing input. The sync is stale and \<open>SavePosts\<close> returns an error:
  \<open>prepareFeed\<close> returns the empty feed with a nil error, and the cursor is at the head.
\<close>

theorem prepareFeed_append_failure_returns_nil:
  "fst (SavePosts SqliteCache_locked 1 [post_at 3, post_at 1] store_cursor_1) =
     Return [] (Some ''database is locked'')
   \<and> fst (prepareFeed ''lexfridman'' SqliteCache_locked remote_gap store_cursor_1) =
     Return Feed_zero None
   \<and> stored_cursor ''lexfridman''
       (snd (snd (prepareFeed ''lexfridman'' SqliteCache_locked remote_gap store_cursor_1))) = 3"
  by code_simp

section \<open>The fresh path\<close>

lemma sort_key_descending:
  "sorted_wrt (\<lambda>a b. f b \<le> f a) (rev (sort_key f xs))"
  using sorted_sort_key [of f xs] by (simp add: sorted_wrt_rev sorted_map)

lemma SqliteCache_simps [simp]:
  "GetChannel SqliteCache = SqliteCache_GetChannel"
  "SaveChannel SqliteCache = SqliteCache_SaveChannel"
  "UpdateLastPostId SqliteCache = SqliteCache_UpdateLastPostId"
  "GetPosts SqliteCache = SqliteCache_GetPosts"
  "SavePosts SqliteCache = SqliteCache_SavePosts"
  by (simp_all add: SqliteCache_def)

lemma prepareFeed_fresh:
  assumes "FetchChannel fetcher channelName = Return channel None"
    and "find (\<lambda>r. DbChannel.Name r = channelName) (channels_table s) = Some dbc"
    and "DbChannel.LastId dbc = Channel.LastId channel"
  shows "prepareFeed channelName SqliteCache fetcher s =
     (Return (generateFeed dbc
        (map (\<lambda>r. r\<lparr>ChannelId := 0\<rparr>)
          (take 20 (rev (sort_key DbPost.CreatedAt
            (filter (\<lambda>r. ChannelId r = DbChannel.Id dbc) (posts_table s))))))) None, [], s)"
  using assms
  by (simp add: prepareFeed_def SqliteCache_GetChannel_def SqliteCache_GetPosts_def
      MAX_RSS_POSTS_COUNT_def Let_def)

text \<open>
  Claim C6. When the cursor stored for the channel equals the head id the remote reports,
  \<open>prepareFeed\<close> calls \<open>FetchPost\<close> for no id, leaves the store as it is and returns,
  with no error, a feed with the name, the link and the description of the stored channel
  and with one item for each post of a list \<open>top\<close>, in its order, that carries the
  header, the link, the content and the \<open>createdAt\<close> of the post. Of the \<open>n\<close> posts
  stored for the channel, \<open>top\<close> holds \<open>min 20 n\<close>: \<open>top\<close> and the posts left
  out are together the stored posts, each as often as the store has it; \<open>top\<close> is in
  descending order of \<open>createdAt\<close>, and no post left out is newer than one of \<open>top\<close>.
\<close>

theorem fresh_sync:
  assumes "FetchChannel fetcher channelName = Return channel None"
    and "find (\<lambda>r. DbChannel.Name r = channelName) (channels_table s) = Some dbc"
    and "DbChannel.LastId dbc = Channel.LastId channel"
    and "rows = filter (\<lambda>r. ChannelId r = DbChannel.Id dbc) (posts_table s)"
  shows "\<exists>top rest.
     prepareFeed channelName SqliteCache fetcher s =
       (Return \<lparr>FeedTitle = DbChannel.Name dbc, FeedLink = Some (DbChannel.Link dbc),
          FeedDescription = DbChannel.Description dbc,
          Items = map (\<lambda>r. \<lparr>ItemTitle = DbPost.Header r, ItemLink = Some (DbPost.Link r),
                    ItemDescription = DbPost.Content r, Created = DbPost.CreatedAt r\<rparr>) top\<rparr>
          None, [], s) \<and>
     mset (top @ rest) = mset rows \<and>
     length top = min 20 (length rows) \<and>
     sorted_wrt (\<lambda>a b. DbPost.CreatedAt b \<le> DbPost.CreatedAt a) top \<and>
     (\<forall>t\<in>set top. \<forall>r\<in>set rest. DbPost.CreatedAt r \<le> DbPost.CreatedAt t)"
proof -
  let ?L = "rev (sort_key DbPost.CreatedAt rows)"
  let ?top = "take 20 ?L"
  let ?rest = "drop 20 ?L"
  have run: "prepareFeed channelName SqliteCache fetcher s =
       (Return \<lparr>FeedTitle = DbChannel.Name dbc, FeedLink = Some (DbChannel.Link dbc),
          FeedDescription = DbChannel.Description dbc,
          Items = map (\<lambda>r. \<lparr>ItemTitle = DbPost.Header r, ItemLink = Some (DbPost.Link r),
                    ItemDescription = DbPost.Content r, Created = DbPost.CreatedAt r\<rparr>) ?top\<rparr>
          None, [], s)"
    using prepareFeed_fresh [OF assms(1,2,3)] assms(4)
    by (simp add: generateFeed_def comp_def)
  have perm: "mset (?top @ ?rest) = mset rows" by simp
  have len: "length ?top = min 20 (length rows)" by simp
  have desc: "sorted_wrt (\<lambda>a b. DbPost.CreatedAt b \<le> DbPost.CreatedAt a) (?top @ ?rest)"
    using sort_key_descending [of DbPost.CreatedAt rows] by simp
  have ord: "sorted_wrt (\<lambda>a b. DbPost.CreatedAt b \<le> DbPost.CreatedAt a) ?top"
    and older: "\<forall>t\<in>set ?top. \<forall>r\<in>set ?rest. DbPost.CreatedAt r \<le> DbPost.CreatedAt t"
    using desc unfolding sorted_wrt_append by blast+
  show ?thesis
    using run perm len ord older by blast
qed

theorem fresh_sync_witness:
  "prepareFeed ''lexfridman'' SqliteCache remote_gap store_cursor_3 =
     (Return \<lparr>FeedTitle = ''lexfridman'', FeedLink = Some ''https://t.me/s/lexfridman'',
        FeedDescription = [],
        Items = [\<lparr>ItemTitle = [], ItemLink = Some [], ItemDescription = Itoa 3, Created = 1003\<rparr>,
                 \<lparr>ItemTitle = [], ItemLink = Some [], ItemDescription = Itoa 1, Created = 1001\<rparr>]\<rparr>
        None, [], store_cursor_3)"
proof -
  let ?dbc = "\<lparr>DbChannel.Id = 1, DbChannel.Name = ''lexfridman'',
        DbChannel.Title = ''Lex Fridman'', DbChannel.LastId = 3,
        DbChannel.Link = ''https://t.me/s/lexfridman'', DbChannel.Description = []\<rparr>"
  let ?a = "row_of 1 1 1001" and ?b = "row_of 3 1 1003"
  have f: "FetchChannel remote_gap ''lexfridman'' = Return channel_head_3 None"
    by (simp add: remote_gap_def)
  have g: "find (\<lambda>r. DbChannel.Name r = ''lexfridman'') (channels_table store_cursor_3) = Some ?dbc"
    by (simp add: store_cursor_3_def)
  have h: "DbChannel.LastId ?dbc = Channel.LastId channel_head_3"
    by (simp add: channel_head_3_def)
  have r: "[?a, ?b] = filter (\<lambda>r. ChannelId r = DbChannel.Id ?dbc) (posts_table store_cursor_3)"
    by (simp add: store_cursor_3_def row_of_def)
  from fresh_sync [OF f g h r] obtain top rest where
    run: "prepareFeed ''lexfridman'' SqliteCache remote_gap store_cursor_3 =
       (Return \<lparr>FeedTitle = DbChannel.Name ?dbc, FeedLink = Some (DbChannel.Link ?dbc),
          FeedDescription = DbChannel.Description ?dbc,
          Items = map (\<lambda>r. \<lparr>ItemTitle = DbPost.Header r, ItemLink = Some (DbPost.Link r),
                    ItemDescription = DbPost.Content r, Created = DbPost.CreatedAt r\<rparr>) top\<rparr>
          None, [], store_cursor_3)"
    and perm: "mset (top @ rest) = mset [?a, ?b]"
    and len: "length top = min 20 (length [?a, ?b])"
    and ord: "sorted_wrt (\<lambda>a b. DbPost.CreatedAt b \<le> DbPost.CreatedAt a) top"
    by blast
  have "length (top @ rest) = length [?a, ?b]" by (rule mset_eq_length [OF perm])
  with len have rest: "rest = []" and l2: "length top = 2" by simp_all
  from l2 obtain x y where top: "top = [x, y]"
    by (cases top; cases "tl top") auto
  have "mset [x, y] = mset [?a, ?b]" using perm rest top by simp
  then have "(x = ?a \<and> y = ?b) \<or> (x = ?b \<and> y = ?a)"
    by (auto simp: add_eq_conv_ex)
  moreover have "DbPost.CreatedAt y \<le> DbPost.CreatedAt x" using ord top by simp
  ultimately have "x = ?b \<and> y = ?a" by (auto simp: row_of_def)
  with run top show ?thesis by (simp add: row_of_def)
qed

section \<open>The store after a sync\<close>

lemma insert_posts_channels:
  "channels_table (snd (insert_posts channelId ps s acc)) = channels_table s \<and>
   channels_seq (snd (insert_posts channelId ps s acc)) = channels_seq s"
  by (induction ps arbitrary: s acc) (simp_all add: Let_def)

lemma SavePosts_channels:
  "channels_table (snd (SqliteCache_SavePosts channelId ps s)) = channels_table s \<and>
   channels_seq (snd (SqliteCache_SavePosts channelId ps s)) = channels_seq s"
  using insert_posts_channels [of channelId ps s "[]"]
  by (auto simp: SqliteCache_SavePosts_def split: prod.splits)

lemma prepareFeed_store_found:
  assumes "FetchChannel fetcher channelName = Return channel None"
    and "find (\<lambda>r. DbChannel.Name r = channelName) (channels_table s) = Some dbc"
  shows "snd (snd (prepareFeed channelName SqliteCache fetcher s)) = after_walk fetcher channel dbc s"
  using assms
  by (auto simp: prepareFeed_def SqliteCache_GetChannel_def SqliteCache_GetPosts_def
      SqliteCache_UpdateLastPostId_def after_walk_def Let_def
      split: option.splits prod.splits outcome.splits)

lemma prepareFeed_store_new:
  assumes "FetchChannel fetcher channelName = Return channel None"
    and "find (\<lambda>r. DbChannel.Name r = channelName) (channels_table s) = None"
    and "Channel.Name channel = channelName"
  shows "snd (snd (prepareFeed channelName SqliteCache fetcher s)) =
     after_walk fetcher channel (new_row channel s) (with_new_row channel s)"
  using assms
  by (auto simp: prepareFeed_def SqliteCache_GetChannel_def SqliteCache_GetPosts_def
      SqliteCache_SaveChannel_def SqliteCache_UpdateLastPostId_def after_walk_def Let_def
      new_row_def with_new_row_def
      split: option.splits prod.splits outcome.splits)

lemma prepareFeed_store_failed:
  assumes "FetchChannel fetcher channelName = Abort p \<or>
     (\<exists>channel e. FetchChannel fetcher channelName = Return channel (Some e))"
  shows "snd (snd (prepareFeed channelName SqliteCache fetcher s)) = s"
  using assms by (auto simp: prepareFeed_def)

lemma find_set_cursor:
  "find (\<lambda>r. DbChannel.Name r = m) (map (set_cursor i v) rows) =
     map_option (set_cursor i v) (find (\<lambda>r. DbChannel.Name r = m) rows)"
  by (induction rows) auto

lemma find_append_new:
  "find P (rows @ [r]) = (case find P rows of Some x \<Rightarrow> Some x | None \<Rightarrow> (if P r then Some r else None))"
  by (induction rows) auto

lemma find_in_set: "find P rows = Some r \<Longrightarrow> r \<in> set rows \<and> P r"
  by (induction rows) (auto split: if_splits)

lemma distinct_Id_eq:
  "distinct (map DbChannel.Id rows) \<Longrightarrow> r \<in> set rows \<Longrightarrow> r' \<in> set rows \<Longrightarrow>
   DbChannel.Id r = DbChannel.Id r' \<Longrightarrow> r = r'"
  by (meson distinct_map inj_onD)

lemma after_walk_channels:
  "channels_table (after_walk fetcher channel dbc s) = channels_table s \<or>
   channels_table (after_walk fetcher channel dbc s) =
     map (set_cursor (DbChannel.Id dbc) (Channel.LastId channel)) (channels_table s)"
  using SavePosts_channels
  by (auto simp: after_walk_def Let_def SqliteCache_UpdateLastPostId_def)

lemma after_walk_seq:
  "channels_seq (after_walk fetcher channel dbc s) = channels_seq s"
  using SavePosts_channels
  by (auto simp: after_walk_def Let_def SqliteCache_UpdateLastPostId_def)

lemma Id_comp_set_cursor: "DbChannel.Id \<circ> set_cursor i v = DbChannel.Id"
  by (rule ext) simp

lemma after_walk_wf:
  assumes "wf_db s"
  shows "wf_db (after_walk fetcher channel dbc s)"
proof -
  let ?s' = "after_walk fetcher channel dbc s"
  have ids: "map DbChannel.Id (channels_table ?s') = map DbChannel.Id (channels_table s)"
    using after_walk_channels [of fetcher channel dbc s]
    by (auto simp: Id_comp_set_cursor)
  have seq: "channels_seq ?s' = channels_seq s" by (rule after_walk_seq)
  have "list_all (\<lambda>r. DbChannel.Id r \<le> channels_seq s) (channels_table s) \<longleftrightarrow>
      (\<forall>i\<in>set (map DbChannel.Id (channels_table s)). i \<le> channels_seq s)"
    by (simp add: list_all_iff)
  moreover have "list_all (\<lambda>r. DbChannel.Id r \<le> channels_seq ?s') (channels_table ?s') \<longleftrightarrow>
      (\<forall>i\<in>set (map DbChannel.Id (channels_table ?s')). i \<le> channels_seq ?s')"
    by (simp add: list_all_iff)
  ultimately show ?thesis using assms unfolding wf_db_def ids seq by simp
qed

lemma with_new_row_wf: "wf_db s \<Longrightarrow> wf_db (with_new_row channel s)"
  by (force simp: wf_db_def with_new_row_def new_row_def list_all_iff)

lemma stored_cursor_set_cursor:
  assumes "distinct (map DbChannel.Id rows)"
    and "find (\<lambda>r. DbChannel.Name r = n) rows = Some dbc"
    and "channels_table s' = map (set_cursor (DbChannel.Id dbc) v) rows"
    and "channels_table s = rows"
  shows "stored_cursor m s' = (if m = n then v else stored_cursor m s)"
proof (cases "find (\<lambda>r. DbChannel.Name r = m) rows")
  case None
  with assms show ?thesis
    by (auto simp: stored_cursor_def find_set_cursor)
next
  case (Some r)
  have dbc: "dbc \<in> set rows" "DbChannel.Name dbc = n" using find_in_set [OF assms(2)] by auto
  have r: "r \<in> set rows" "DbChannel.Name r = m" using find_in_set [OF Some] by auto
  show ?thesis
  proof (cases "m = n")
    case True
    with Some assms(2) have "r = dbc" by simp
    with Some assms(3) True show ?thesis
      by (simp add: stored_cursor_def find_set_cursor)
  next
    case False
    with dbc r have "r \<noteq> dbc" by auto
    then have "DbChannel.Id r \<noteq> DbChannel.Id dbc"
      using distinct_Id_eq [OF assms(1) r(1) dbc(1)] by blast
    with Some assms(3,4) False show ?thesis
      by (simp add: stored_cursor_def find_set_cursor)
  qed
qed

lemma after_walk_cursor:
  assumes "wf_db s"
    and "find (\<lambda>r. DbChannel.Name r = n) (channels_table s) = Some dbc"
  shows "stored_cursor m (after_walk fetcher channel dbc s) = stored_cursor m s \<or>
     (m = n \<and> stored_cursor m (after_walk fetcher channel dbc s) = Channel.LastId channel)"
proof -
  have d: "distinct (map DbChannel.Id (channels_table s))" using assms(1) by (simp add: wf_db_def)
  from after_walk_channels [of fetcher channel dbc s] show ?thesis
  proof
    assume "channels_table (after_walk fetcher channel dbc s) = channels_table s"
    then show ?thesis by (simp add: stored_cursor_def)
  next
    assume "channels_table (after_walk fetcher channel dbc s) =
      map (set_cursor (DbChannel.Id dbc) (Channel.LastId channel)) (channels_table s)"
    from stored_cursor_set_cursor [OF d assms(2) this refl, of m] show ?thesis
      by (cases "m = n") simp_all
  qed
qed

lemma with_new_row_cursor:
  assumes "find (\<lambda>r. DbChannel.Name r = Channel.Name channel) (channels_table s) = None"
  shows "stored_cursor m (with_new_row channel s) = stored_cursor m s"
  using assms
  by (auto simp: stored_cursor_def with_new_row_def find_append_new new_row_def split: option.splits)

lemma with_new_row_find:
  assumes "find (\<lambda>r. DbChannel.Name r = Channel.Name channel) (channels_table s) = None"
  shows "find (\<lambda>r. DbChannel.Name r = Channel.Name channel) (channels_table (with_new_row channel s)) =
     Some (new_row channel s)"
  using assms by (simp add: with_new_row_def find_append_new new_row_def)

lemma prepareFeed_step:
  assumes "wf_db s" "head_not_behind n f s"
  shows "wf_db (snd (snd (prepareFeed n SqliteCache f s))) \<and>
     stored_cursor m s \<le> stored_cursor m (snd (snd (prepareFeed n SqliteCache f s)))"
proof (cases "FetchChannel f n")
  case (Abort p)
  then show ?thesis using assms(1) prepareFeed_store_failed [of f n p s] by simp
next
  case (Return ch err)
  show ?thesis
  proof (cases err)
    case (Some e)
    with Return assms(1) prepareFeed_store_failed [of f n undefined s] show ?thesis by auto
  next
    case None
    with Return have fetched: "FetchChannel f n = Return ch None" by simp
    have name: "Channel.Name ch = n" and ahead: "stored_cursor n s \<le> Channel.LastId ch"
      using assms(2) fetched by (auto simp: head_not_behind_def)
    show ?thesis
    proof (cases "find (\<lambda>r. DbChannel.Name r = n) (channels_table s)")
      case (Some dbc)
      have s': "snd (snd (prepareFeed n SqliteCache f s)) = after_walk f ch dbc s"
        by (rule prepareFeed_store_found [OF fetched Some])
      have "stored_cursor m s \<le> stored_cursor m (after_walk f ch dbc s)"
        using after_walk_cursor [OF assms(1) Some, of m f ch] ahead by auto
      then show ?thesis using after_walk_wf [OF assms(1)] s' by simp
    next
      case None
      let ?s1 = "with_new_row ch s"
      have s': "snd (snd (prepareFeed n SqliteCache f s)) = after_walk f ch (new_row ch s) ?s1"
        by (rule prepareFeed_store_new [OF fetched None name])
      have none: "find (\<lambda>r. DbChannel.Name r = Channel.Name ch) (channels_table s) = None"
        using None name by simp
      have wf1: "wf_db ?s1" by (rule with_new_row_wf [OF assms(1)])
      have found1: "find (\<lambda>r. DbChannel.Name r = n) (channels_table ?s1) = Some (new_row ch s)"
        using with_new_row_find [OF none] name by simp
      have same: "stored_cursor m ?s1 = stored_cursor m s" for m
        by (rule with_new_row_cursor [OF none])
      have "stored_cursor m ?s1 \<le> stored_cursor m (after_walk f ch (new_row ch s) ?s1)"
        using after_walk_cursor [OF wf1 found1, of m f ch] ahead same [of n] by auto
      then show ?thesis using after_walk_wf [OF wf1] s' same [of m] by simp
    qed
  qed
qed

text \<open>
  Claim C3, as stated, fails: the store holds cursor 5 and the remote reports head id 3
  (its newest posts are gone); the sync is stale and writes 3.
\<close>

theorem cursor_decreases_counterexample:
  "stored_cursor ''lexfridman'' store_cursor_5 = 5
   \<and> FetchChannel remote_gap ''lexfridman'' = Return channel_head_3 None
   \<and> Channel.LastId channel_head_3 = 3
   \<and> stored_cursor ''lexfridman''
        (snd (snd (prepareFeed ''lexfridman'' SqliteCache remote_gap store_cursor_5))) = 3"
  by code_simp

text \<open>
  Claim C3, amended. Over a sequence of syncs, of any channels, in which no head lookup
  falls behind the store, the cursor stored for a channel never decreases from one store
  to the next.
\<close>

theorem cursor_non_decreasing:
  assumes "wf_db s" and "heads_not_behind calls s"
  shows "sorted (map (stored_cursor channelName) (s # syncs SqliteCache calls s))"
  using assms
proof (induction calls arbitrary: s)
  case Nil
  show ?case by simp
next
  case (Cons call calls)
  obtain n f where call: "call = (n, f)" by (cases call)
  let ?s' = "snd (snd (prepareFeed n SqliteCache f s))"
  have hnb: "head_not_behind n f s" and rest: "heads_not_behind calls ?s'"
    using Cons.prems(2) call by simp_all
  have step: "wf_db ?s'" "stored_cursor channelName s \<le> stored_cursor channelName ?s'"
    using prepareFeed_step [OF Cons.prems(1) hnb] by simp_all
  have "sorted (map (stored_cursor channelName) (?s' # syncs SqliteCache calls ?s'))"
    by (rule Cons.IH [OF step(1) rest])
  with step(2) show ?case using call by (fastforce simp: Let_def)
qed

theorem cursor_non_decreasing_witness:
  "sorted (map (stored_cursor ''lexfridman'')
     (store_cursor_1 #
      syncs SqliteCache [(''lexfridman'', remote_gap), (''lexfridman'', remote_gap)] store_cursor_1))
   \<and> map (stored_cursor ''lexfridman'')
     (store_cursor_1 #
      syncs SqliteCache [(''lexfridman'', remote_gap), (''lexfridman'', remote_gap)] store_cursor_1) =
     [1, 3, 3]"
proof -
  have wf: "wf_db store_cursor_1" by code_simp
  have ahead: "heads_not_behind [(''lexfridman'', remote_gap), (''lexfridman'', remote_gap)]
      store_cursor_1"
    by code_simp
  have cursors: "map (stored_cursor ''lexfridman'')
     (store_cursor_1 #
      syncs SqliteCache [(''lexfridman'', remote_gap), (''lexfridman'', remote_gap)] store_cursor_1) =
     [1, 3, 3]"
    by code_simp
  show ?thesis
    by (rule conjI [OF cursor_non_decreasing [OF wf ahead] cursors])
qed

lemma after_walk_stale:
  assumes "DbChannel.LastId dbc \<noteq> Channel.LastId channel"
    and "panicked (walk fetcher (Channel.Name channel) (DbChannel.LastId dbc) (Channel.LastId channel) []) = None"
  shows "channels_table (after_walk fetcher channel dbc s) =
     map (set_cursor (DbChannel.Id dbc) (Channel.LastId channel)) (channels_table s)"
  using assms SavePosts_channels
  by (simp add: after_walk_def Let_def SqliteCache_UpdateLastPostId_def)

text \<open>The row of the channel after a stale sync.\<close>

lemma stale_sync_row:
  assumes "FetchChannel fetcher channelName = Return channel None"
    and "Channel.Name channel = channelName"
    and "stored_cursor channelName s \<noteq> Channel.LastId channel"
    and "panicked (walk fetcher channelName (stored_cursor channelName s)
           (Channel.LastId channel) []) = None"
  shows "\<exists>row. find (\<lambda>r. DbChannel.Name r = channelName)
             (channels_table (snd (snd (prepareFeed channelName SqliteCache fetcher s)))) = Some row \<and>
           DbChannel.LastId row = Channel.LastId channel"
proof (cases "find (\<lambda>r. DbChannel.Name r = channelName) (channels_table s)")
  case (Some dbc)
  have cur: "stored_cursor channelName s = DbChannel.LastId dbc"
    using Some by (simp add: stored_cursor_def)
  have s': "snd (snd (prepareFeed channelName SqliteCache fetcher s)) = after_walk fetcher channel dbc s"
    by (rule prepareFeed_store_found [OF assms(1) Some])
  have "channels_table (after_walk fetcher channel dbc s) =
      map (set_cursor (DbChannel.Id dbc) (Channel.LastId channel)) (channels_table s)"
    using after_walk_stale [of dbc channel fetcher s] assms(2,3,4) cur by simp
  then show ?thesis using s' Some by (simp add: find_set_cursor)
next
  case None
  let ?s1 = "with_new_row channel s"
  let ?new = "new_row channel s"
  have cur: "stored_cursor channelName s = 0" using None by (simp add: stored_cursor_def)
  have new0: "DbChannel.LastId ?new = 0" by (simp add: new_row_def)
  have s': "snd (snd (prepareFeed channelName SqliteCache fetcher s)) = after_walk fetcher channel ?new ?s1"
    by (rule prepareFeed_store_new [OF assms(1) None assms(2)])
  have none: "find (\<lambda>r. DbChannel.Name r = Channel.Name channel) (channels_table s) = None"
    using None assms(2) by simp
  have found1: "find (\<lambda>r. DbChannel.Name r = channelName) (channels_table ?s1) = Some ?new"
    using with_new_row_find [OF none] assms(2) by simp
  have "channels_table (after_walk fetcher channel ?new ?s1) =
      map (set_cursor (DbChannel.Id ?new) (Channel.LastId channel)) (channels_table ?s1)"
    using after_walk_stale [of ?new channel fetcher ?s1] assms(2,3,4) cur new0 by simp
  then show ?thesis using s' found1 by (simp add: find_set_cursor)
qed

text \<open>
  Claim C7. When the head lookup returns a channel whose head id differs from the cursor
  stored for it and the walk ends without a panic, then after \<open>prepareFeed\<close> the store
  has a row for the channel and its cursor is that head id, whatever \<open>FetchPost\<close>
  returned for the ids of the walk.
\<close>

theorem stale_sync_sets_cursor:
  assumes "FetchChannel fetcher channelName = Return channel None"
    and "Channel.Name channel = channelName"
    and "stored_cursor channelName s \<noteq> Channel.LastId channel"
    and "panicked (walk fetcher channelName (stored_cursor channelName s)
           (Channel.LastId channel) []) = None"
  shows "\<exists>row. find (\<lambda>r. DbChannel.Name r = channelName)
             (channels_table (snd (snd (prepareFeed channelName SqliteCache fetcher s)))) = Some row \<and>
           DbChannel.LastId row = Channel.LastId channel"
  by (rule stale_sync_row [OF assms])

theorem stale_sync_sets_cursor_witness:
  "\<exists>row. find (\<lambda>r. DbChannel.Name r = ''lexfridman'')
       (channels_table (snd (snd (prepareFeed ''lexfridman'' SqliteCache remote_gap
          store_cursor_1)))) = Some row \<and>
     DbChannel.LastId row = 3"
proof -
  have f: "FetchChannel remote_gap ''lexfridman'' = Return channel_head_3 None"
    by (simp add: remote_gap_def)
  have n: "Channel.Name channel_head_3 = ''lexfridman''" by (simp add: channel_head_3_def)
  have c: "stored_cursor ''lexfridman'' store_cursor_1 \<noteq> Channel.LastId channel_head_3"
    by code_simp
  have w: "panicked (walk remote_gap ''lexfridman'' (stored_cursor ''lexfridman'' store_cursor_1)
           (Channel.LastId channel_head_3) []) = None"
    by code_simp
  have h: "Channel.LastId channel_head_3 = 3" by (simp add: channel_head_3_def)
  show ?thesis using stale_sync_sets_cursor [OF f n c w] h by simp
qed

section \<open>The boundary item of a stale sync\<close>

lemma insert_posts_rows:
  "\<exists>new. fst (insert_posts channelId ps s acc) = acc @ new \<and>
     posts_table (snd (insert_posts channelId ps s acc)) = posts_table s @ new \<and>
     map (\<lambda>r. \<lparr>Post.Header = DbPost.Header r, Post.Content = DbPost.Content r,
            Post.Link = DbPost.Link r, Post.CreatedAt = DbPost.CreatedAt r\<rparr>) new = ps"
proof (induction ps arbitrary: s acc)
  case Nil
  show ?case by simp
next
  case (Cons post rest)
  let ?row = "\<lparr>DbPost.Id = posts_seq s + 1, DbPost.Header = Post.Header post,
            DbPost.Content = Post.Content post, DbPost.Link = Post.Link post,
            DbPost.CreatedAt = Post.CreatedAt post, ChannelId = channelId\<rparr>"
  let ?s = "s\<lparr>posts_table := posts_table s @ [?row], posts_seq := posts_seq s + 1\<rparr>"
  from Cons [of ?s "acc @ [?row]"] obtain new where
    n: "fst (insert_posts channelId rest ?s (acc @ [?row])) = (acc @ [?row]) @ new"
      "posts_table (snd (insert_posts channelId rest ?s (acc @ [?row]))) = posts_table ?s @ new"
      "map (\<lambda>r. \<lparr>Post.Header = DbPost.Header r, Post.Content = DbPost.Content r,
            Post.Link = DbPost.Link r, Post.CreatedAt = DbPost.CreatedAt r\<rparr>) new = rest"
    by blast
  from n show ?case
    by (intro exI [of _ "?row # new"]) (simp add: Let_def)
qed

lemma prepareFeed_stale:
  assumes "FetchChannel fetcher channelName = Return channel None"
    and "find (\<lambda>r. DbChannel.Name r = channelName) (channels_table s) = Some dbc"
    and "DbChannel.LastId dbc \<noteq> Channel.LastId channel"
    and "panicked (walk fetcher (Channel.Name channel) (DbChannel.LastId dbc)
           (Channel.LastId channel) []) = None"
    and "w = walk fetcher (Channel.Name channel) (DbChannel.LastId dbc) (Channel.LastId channel) []"
    and "s1 = snd (SqliteCache_UpdateLastPostId (DbChannel.Id dbc) (Channel.LastId channel) s)"
  shows "prepareFeed channelName SqliteCache fetcher s =
     (Return (generateFeed dbc (fst (insert_posts (DbChannel.Id dbc) (collected w) s1 []))) None,
      downloads w, snd (insert_posts (DbChannel.Id dbc) (collected w) s1 []))"
  using assms
  by (simp add: prepareFeed_def SqliteCache_GetChannel_def SqliteCache_SavePosts_def
      SqliteCache_UpdateLastPostId_def Let_def split: prod.splits)

lemma prepareFeed_stale_new:
  assumes "FetchChannel fetcher channelName = Return channel None"
    and "find (\<lambda>r. DbChannel.Name r = channelName) (channels_table s) = None"
    and "Channel.Name channel = channelName"
    and "0 \<noteq> Channel.LastId channel"
    and "panicked (walk fetcher channelName 0 (Channel.LastId channel) []) = None"
    and "w = walk fetcher channelName 0 (Channel.LastId channel) []"
    and "s1 = snd (SqliteCache_UpdateLastPostId (channels_seq s + 1) (Channel.LastId channel)
           (with_new_row channel s))"
  shows "prepareFeed channelName SqliteCache fetcher s =
     (Return (generateFeed (new_row channel s)
        (fst (insert_posts (channels_seq s + 1) (collected w) s1 []))) None,
      downloads w, snd (insert_posts (channels_seq s + 1) (collected w) s1 []))"
  using assms
  by (simp add: prepareFeed_def SqliteCache_GetChannel_def SqliteCache_SaveChannel_def
      SqliteCache_SavePosts_def SqliteCache_UpdateLastPostId_def new_row_def with_new_row_def
      Let_def split: prod.splits)

text \<open>What \<open>SavePosts\<close> inserts and returns for the posts a walk collected.\<close>

lemma saved_walk:
  assumes "w = walk fetcher name cursor head []"
    and "ins = insert_posts cid (collected w) s1 []"
  shows "posts_table (snd ins) = posts_table s1 @ fst ins \<and>
     (\<exists>kept. cursor + 1 \<notin> set kept \<and> set kept \<subseteq> set (downloads w) \<and>
        Items (generateFeed dbc (fst ins)) =
          map (\<lambda>i. \<lparr>ItemTitle = Post.Header (fetched_post fetcher name i),
                 ItemLink = Some (Post.Link (fetched_post fetcher name i)),
                 ItemDescription = Post.Content (fetched_post fetcher name i),
                 Created = Post.CreatedAt (fetched_post fetcher name i)\<rparr>) kept \<and>
        map (\<lambda>r. \<lparr>Post.Header = DbPost.Header r, Post.Content = DbPost.Content r,
               Post.Link = DbPost.Link r, Post.CreatedAt = DbPost.CreatedAt r\<rparr>) (fst ins) =
          map (fetched_post fetcher name) kept) \<and>
     ((\<forall>i. i \<noteq> cursor + 1 \<longrightarrow> FetchPost fetcher name i \<noteq> Return post None) \<longrightarrow>
        \<lparr>ItemTitle = Post.Header post, ItemLink = Some (Post.Link post),
         ItemDescription = Post.Content post, Created = Post.CreatedAt post\<rparr>
          \<notin> set (Items (generateFeed dbc (fst ins))) \<and>
        (\<forall>r\<in>set (fst ins). \<lparr>Post.Header = DbPost.Header r, Post.Content = DbPost.Content r,
               Post.Link = DbPost.Link r, Post.CreatedAt = DbPost.CreatedAt r\<rparr> \<noteq> post))"
proof -
  let ?post_of = "\<lambda>r. \<lparr>Post.Header = DbPost.Header r, Post.Content = DbPost.Content r,
                    Post.Link = DbPost.Link r, Post.CreatedAt = DbPost.CreatedAt r\<rparr>"
  let ?kept = "appended w"
  let ?new = "fst ins"
  from insert_posts_rows [of cid "collected w" s1 "[]"]
  have tbl: "posts_table (snd ins) = posts_table s1 @ ?new"
    and saved: "map ?post_of ?new = collected w"
    using assms(2) by auto
  have coll: "collected w = map (fetched_post fetcher name) ?kept"
    using collected_appended [of fetcher name cursor head "[]"] assms(1) by simp
  have rows: "map ?post_of ?new = map (fetched_post fetcher name) ?kept"
    using saved coll by simp
  have notin: "cursor + 1 \<notin> set ?kept"
    unfolding assms(1) by (rule boundary_never_appended)
  have sub: "set ?kept \<subseteq> set (downloads w)"
    unfolding assms(1) by (rule appended_downloaded)
  have "Items (generateFeed dbc ?new) =
      map (\<lambda>p. \<lparr>ItemTitle = Post.Header p, ItemLink = Some (Post.Link p),
             ItemDescription = Post.Content p, Created = Post.CreatedAt p\<rparr>) (map ?post_of ?new)"
    by (simp add: generateFeed_def comp_def)
  also have "\<dots> = map (\<lambda>i. \<lparr>ItemTitle = Post.Header (fetched_post fetcher name i),
                      ItemLink = Some (Post.Link (fetched_post fetcher name i)),
                      ItemDescription = Post.Content (fetched_post fetcher name i),
                      Created = Post.CreatedAt (fetched_post fetcher name i)\<rparr>) ?kept"
    unfolding rows by (simp add: comp_def)
  finally have items: "Items (generateFeed dbc ?new) =
      map (\<lambda>i. \<lparr>ItemTitle = Post.Header (fetched_post fetcher name i),
                      ItemLink = Some (Post.Link (fetched_post fetcher name i)),
                      ItemDescription = Post.Content (fetched_post fetcher name i),
                      Created = Post.CreatedAt (fetched_post fetcher name i)\<rparr>) ?kept" .
  have away: "\<lparr>ItemTitle = Post.Header post, ItemLink = Some (Post.Link post),
              ItemDescription = Post.Content post, Created = Post.CreatedAt post\<rparr>
               \<notin> set (Items (generateFeed dbc ?new)) \<and>
             (\<forall>r\<in>set ?new. ?post_of r \<noteq> post)"
    if only: "\<forall>i. i \<noteq> cursor + 1 \<longrightarrow> FetchPost fetcher name i \<noteq> Return post None"
  proof -
    have other: "fetched_post fetcher name i \<noteq> post" if "i \<in> set ?kept" for i
    proof
      assume e: "fetched_post fetcher name i = post"
      have "FetchPost fetcher name i = Return post None"
        using appended_fetch_ok [of i fetcher name cursor head "[]"] that e assms(1) by simp
      with only have "i = cursor + 1" by blast
      with that notin show False by simp
    qed
    have "post \<notin> set (map (fetched_post fetcher name) ?kept)"
      using other by auto
    then have r: "post \<notin> set (map ?post_of ?new)" using rows by simp
    have i: "\<lparr>ItemTitle = Post.Header post, ItemLink = Some (Post.Link post),
              ItemDescription = Post.Content post, Created = Post.CreatedAt post\<rparr>
               \<notin> set (Items (generateFeed dbc ?new))"
    proof
      assume "\<lparr>ItemTitle = Post.Header post, ItemLink = Some (Post.Link post),
              ItemDescription = Post.Content post, Created = Post.CreatedAt post\<rparr>
               \<in> set (Items (generateFeed dbc ?new))"
      then obtain k where k: "k \<in> set ?kept"
        "Post.Header post = Post.Header (fetched_post fetcher name k)"
        "Post.Link post = Post.Link (fetched_post fetcher name k)"
        "Post.Content post = Post.Content (fetched_post fetcher name k)"
        "Post.CreatedAt post = Post.CreatedAt (fetched_post fetcher name k)"
        unfolding items by auto
      then have "fetched_post fetcher name k = post" by simp
      with other [OF k(1)] show False by simp
    qed
    from r i show ?thesis by auto
  qed
  show ?thesis
    apply (rule conjI)
     apply (rule tbl)
    apply (rule conjI)
     apply (rule exI [of _ ?kept])
     apply (intro conjI notin sub items rows)
    apply (rule impI)
    apply (erule away)
    done
qed

text \<open>
  Claim C9. A stale sync: the head lookup returns the channel asked for, its head id
  differs from the stored cursor, and \<open>FetchPost\<close> does not panic. Let the fetch of the
  id after the stored cursor succeed with \<open>post\<close>.
  \<^item> When the loop is at that id and the time of \<open>post\<close> differs from that of the post
    collected last, the loop calls \<open>FetchPost\<close> for the id and then breaks: nothing is
    appended and \<open>posts\<close> is as it was.
  \<^item> \<open>prepareFeed\<close> returns a feed with no error and adds rows at the end of the table
    \<open>posts\<close>. The items of the feed and the rows added are, in order, the posts
    \<open>FetchPost\<close> returned for a list of ids it was called with, and the id after the
    stored cursor is not in that list.
  \<^item> When \<open>FetchPost\<close> returns \<open>post\<close> for no other id, no item of the feed and no
    row added has the header, link, content and \<open>createdAt\<close> of \<open>post\<close>.
\<close>

theorem stale_sync_discards_boundary_item:
  assumes "FetchChannel fetcher channelName = Return channel None"
    and "Channel.Name channel = channelName"
    and "stored_cursor channelName s \<noteq> Channel.LastId channel"
    and "0 \<le> stored_cursor channelName s"
    and "\<forall>i p. FetchPost fetcher channelName i \<noteq> Abort p"
    and "FetchPost fetcher channelName (stored_cursor channelName s + 1) = Return post None"
  shows "(\<forall>posts. int (length posts) < MAX_RSS_POSTS_COUNT \<and>
            (posts = [] \<or> Post.CreatedAt post \<noteq> Post.CreatedAt (last posts)) \<longrightarrow>
          walk fetcher channelName (stored_cursor channelName s)
              (stored_cursor channelName s + 1) posts =
            \<lparr>downloads = [stored_cursor channelName s + 1], appended = [], collected = posts,
             panicked = None\<rparr>)
     \<and> (\<exists>feed ids new s'.
          prepareFeed channelName SqliteCache fetcher s = (Return feed None, ids, s') \<and>
          posts_table s' = posts_table s @ new \<and>
          (\<exists>kept. stored_cursor channelName s + 1 \<notin> set kept \<and> set kept \<subseteq> set ids \<and>
             Items feed =
               map (\<lambda>i. \<lparr>ItemTitle = Post.Header (fetched_post fetcher channelName i),
                      ItemLink = Some (Post.Link (fetched_post fetcher channelName i)),
                      ItemDescription = Post.Content (fetched_post fetcher channelName i),
                      Created = Post.CreatedAt (fetched_post fetcher channelName i)\<rparr>) kept \<and>
             map (\<lambda>r. \<lparr>Post.Header = DbPost.Header r, Post.Content = DbPost.Content r,
                    Post.Link = DbPost.Link r, Post.CreatedAt = DbPost.CreatedAt r\<rparr>) new =
               map (fetched_post fetcher channelName) kept) \<and>
          ((\<forall>i. i \<noteq> stored_cursor channelName s + 1 \<longrightarrow>
                 FetchPost fetcher channelName i \<noteq> Return post None) \<longrightarrow>
             \<lparr>ItemTitle = Post.Header post, ItemLink = Some (Post.Link post),
              ItemDescription = Post.Content post, Created = Post.CreatedAt post\<rparr>
               \<notin> set (Items feed) \<and>
             (\<forall>r\<in>set new. \<lparr>Post.Header = DbPost.Header r, Post.Content = DbPost.Content r,
                    Post.Link = DbPost.Link r, Post.CreatedAt = DbPost.CreatedAt r\<rparr> \<noteq> post)))"
proof -
  let ?cursor = "stored_cursor channelName s"
  let ?w = "walk fetcher channelName ?cursor (Channel.LastId channel) []"
  have break: "walk fetcher channelName ?cursor (?cursor + 1) posts =
      \<lparr>downloads = [?cursor + 1], appended = [], collected = posts, panicked = None\<rparr>"
    if "int (length posts) < MAX_RSS_POSTS_COUNT"
      and "posts = [] \<or> Post.CreatedAt post \<noteq> Post.CreatedAt (last posts)" for posts
    by (rule walk_boundary [OF assms(4) that(1) assms(6) that(2)])
  have np: "panicked ?w = None"
    using assms(5) by (intro walk_never_panics) simp
  have "\<exists>dbc cid s1. posts_table s1 = posts_table s \<and>
      prepareFeed channelName SqliteCache fetcher s =
        (Return (generateFeed dbc (fst (insert_posts cid (collected ?w) s1 []))) None,
         downloads ?w, snd (insert_posts cid (collected ?w) s1 []))"
  proof (cases "find (\<lambda>r. DbChannel.Name r = channelName) (channels_table s)")
    case (Some dbc)
    let ?s1 = "snd (SqliteCache_UpdateLastPostId (DbChannel.Id dbc) (Channel.LastId channel) s)"
    have cur: "?cursor = DbChannel.LastId dbc" using Some by (simp add: stored_cursor_def)
    have "prepareFeed channelName SqliteCache fetcher s =
        (Return (generateFeed dbc (fst (insert_posts (DbChannel.Id dbc) (collected ?w) ?s1 []))) None,
         downloads ?w, snd (insert_posts (DbChannel.Id dbc) (collected ?w) ?s1 []))"
      using prepareFeed_stale [OF assms(1) Some, of ?w ?s1] assms(2,3) np cur by simp
    moreover have "posts_table ?s1 = posts_table s"
      by (simp add: SqliteCache_UpdateLastPostId_def)
    ultimately show ?thesis by blast
  next
    case None
    let ?s1 = "snd (SqliteCache_UpdateLastPostId (channels_seq s + 1) (Channel.LastId channel)
           (with_new_row channel s))"
    have cur: "?cursor = 0" using None by (simp add: stored_cursor_def)
    have "prepareFeed channelName SqliteCache fetcher s =
        (Return (generateFeed (new_row channel s)
           (fst (insert_posts (channels_seq s + 1) (collected ?w) ?s1 []))) None,
         downloads ?w, snd (insert_posts (channels_seq s + 1) (collected ?w) ?s1 []))"
      using prepareFeed_stale_new [OF assms(1) None assms(2), of ?w ?s1] assms(3) np cur
      by simp
    moreover have "posts_table ?s1 = posts_table s"
      by (simp add: SqliteCache_UpdateLastPostId_def with_new_row_def)
    ultimately show ?thesis by blast
  qed
  then obtain dbc cid s1 where s1: "posts_table s1 = posts_table s"
    and run: "prepareFeed channelName SqliteCache fetcher s =
        (Return (generateFeed dbc (fst (insert_posts cid (collected ?w) s1 []))) None,
         downloads ?w, snd (insert_posts cid (collected ?w) s1 []))"
    by blast
  let ?ins = "insert_posts cid (collected ?w) s1 []"
  note sw = saved_walk [where fetcher = fetcher and name = channelName and cursor = ?cursor
      and head = "Channel.LastId channel" and cid = cid and ?s1.0 = s1 and post = post
      and dbc = dbc, OF refl refl]
  have tbl: "posts_table (snd ?ins) = posts_table s @ fst ?ins"
    using conjunct1 [OF sw] s1 by simp
  show ?thesis
    apply (rule conjI)
     apply (intro allI impI)
     apply (rule break; simp)
    apply (rule exI [of _ "generateFeed dbc (fst ?ins)"])
    apply (rule exI [of _ "downloads ?w"])
    apply (rule exI [of _ "fst ?ins"])
    apply (rule exI [of _ "snd ?ins"])
    apply (rule conjI)
     apply (rule run)
    apply (rule conjI)
     apply (rule tbl)
    apply (rule conjI)
     apply (rule conjunct1 [OF conjunct2 [OF sw]])
    apply (rule conjunct2 [OF conjunct2 [OF sw]])
    done
qed

theorem stale_sync_discards_boundary_item_witness:
  "walk remote_293 ''lexfridman'' 290 291 [] =
     \<lparr>downloads = [291], appended = [], collected = [], panicked = None\<rparr>
   \<and> fst (snd (prepareFeed ''lexfridman'' SqliteCache remote_293 store_cursor_290)) = [293, 292, 291]
   \<and> (\<exists>feed ids new s'.
        prepareFeed ''lexfridman'' SqliteCache remote_293 store_cursor_290 =
          (Return feed None, ids, s') \<and>
        posts_table s' = posts_table store_cursor_290 @ new \<and>
        \<lparr>ItemTitle = Post.Header (post_at 291), ItemLink = Some (Post.Link (post_at 291)),
         ItemDescription = Post.Content (post_at 291), Created = Post.CreatedAt (post_at 291)\<rparr>
          \<notin> set (Items feed) \<and>
        (\<forall>r\<in>set new. \<lparr>Post.Header = DbPost.Header r, Post.Content = DbPost.Content r,
               Post.Link = DbPost.Link r, Post.CreatedAt = DbPost.CreatedAt r\<rparr> \<noteq> post_at 291))"
proof -
  have cur: "stored_cursor ''lexfridman'' store_cursor_290 = 290"
    by (simp add: stored_cursor_def store_cursor_290_def)
  have f: "FetchChannel remote_293 ''lexfridman'' = Return channel_head_293 None"
    by (simp add: remote_293_def)
  have n: "Channel.Name channel_head_293 = ''lexfridman''" by (simp add: channel_head_293_def)
  have st: "stored_cursor ''lexfridman'' store_cursor_290 \<noteq> Channel.LastId channel_head_293"
    by (simp add: cur channel_head_293_def)
  have c: "0 \<le> stored_cursor ''lexfridman'' store_cursor_290" by (simp add: cur)
  have np: "\<forall>i p. FetchPost remote_293 ''lexfridman'' i \<noteq> Abort p"
    by (simp add: remote_293_def)
  have fp: "FetchPost remote_293 ''lexfridman'' (stored_cursor ''lexfridman'' store_cursor_290 + 1) =
      Return (post_at 291) None"
    by (simp add: cur remote_293_def)
  have only: "\<forall>i. i \<noteq> stored_cursor ''lexfridman'' store_cursor_290 + 1 \<longrightarrow>
      FetchPost remote_293 ''lexfridman'' i \<noteq> Return (post_at 291) None"
    by (simp add: cur remote_293_def post_at_def)
  have dl: "fst (snd (prepareFeed ''lexfridman'' SqliteCache remote_293 store_cursor_290)) =
      [293, 292, 291]"
    by code_simp
  have start: "int (length ([] :: Post list)) < MAX_RSS_POSTS_COUNT \<and>
      (([] :: Post list) = [] \<or> Post.CreatedAt (post_at 291) \<noteq> Post.CreatedAt (last []))"
    by (simp add: MAX_RSS_POSTS_COUNT_def)
  note inst = stale_sync_discards_boundary_item [OF f n st c np fp]
  have break: "walk remote_293 ''lexfridman'' 290 291 [] =
      \<lparr>downloads = [291], appended = [], collected = [], panicked = None\<rparr>"
    using conjunct1 [OF inst] start cur by simp
  from conjunct2 [OF inst] only obtain feed ids new s' where
    "prepareFeed ''lexfridman'' SqliteCache remote_293 store_cursor_290 =
       (Return feed None, ids, s')"
    "posts_table s' = posts_table store_cursor_290 @ new"
    "\<lparr>ItemTitle = Post.Header (post_at 291), ItemLink = Some (Post.Link (post_at 291)),
      ItemDescription = Post.Content (post_at 291), Created = Post.CreatedAt (post_at 291)\<rparr>
       \<notin> set (Items feed)"
    "\<forall>r\<in>set new. \<lparr>Post.Header = DbPost.Header r, Post.Content = DbPost.Content r,
        Post.Link = DbPost.Link r, Post.CreatedAt = DbPost.CreatedAt r\<rparr> \<noteq> post_at 291"
    by blast
  then have "\<exists>feed ids new s'.
        prepareFeed ''lexfridman'' SqliteCache remote_293 store_cursor_290 =
          (Return feed None, ids, s') \<and>
        posts_table s' = posts_table store_cursor_290 @ new \<and>
        \<lparr>ItemTitle = Post.Header (post_at 291), ItemLink = Some (Post.Link (post_at 291)),
         ItemDescription = Post.Content (post_at 291), Created = Post.CreatedAt (post_at 291)\<rparr>
          \<notin> set (Items feed) \<and>
        (\<forall>r\<in>set new. \<lparr>Post.Header = DbPost.Header r, Post.Content = DbPost.Content r,
               Post.Link = DbPost.Link r, Post.CreatedAt = DbPost.CreatedAt r\<rparr> \<noteq> post_at 291)"
    by blast
  with break dl show ?thesis by blast
qed

section \<open>Further properties of the walk and of the feed\<close>

lemma upt_0_Suc_map: "[0..<Suc m] = 0 # map Suc [0..<m]"
  by (simp add: upt_conv_Cons map_Suc_upt del: upt_Suc)

lemma downloads_step:
  assumes "ds = map (\<lambda>k. (p - 1) - int k) [0..<length ds]"
  shows "p # ds = map (\<lambda>k. p - int k) [0..<length (p # ds)]"
proof -
  have "map (\<lambda>k. p - int k) [0..<Suc (length ds)] =
      p # map (\<lambda>k. p - int (Suc k)) [0..<length ds]"
    by (simp only: upt_0_Suc_map list.map map_map comp_def) simp
  also have "map (\<lambda>k. p - int (Suc k)) [0..<length ds] = map (\<lambda>k. (p - 1) - int k) [0..<length ds]"
    by simp
  finally show ?thesis using assms by simp
qed

lemma walk_downloads:
  "downloads (walk fetcher name cursor postId posts) =
     map (\<lambda>k. postId - int k) [0..<length (downloads (walk fetcher name cursor postId posts))]"
proof (induction fetcher name cursor postId posts rule: walk.induct)
  case (1 fetcher name cursor postId posts)
  show ?case
  proof (cases "postId > 0 \<and> int (length posts) < MAX_RSS_POSTS_COUNT")
    case False
    then show ?thesis by (subst (1 2) walk.simps) auto
  next
    case True
    show ?thesis
    proof (cases "FetchPost fetcher name postId")
      case (Abort p)
      with True show ?thesis by (subst (1 2) walk.simps) auto
    next
      case (Return post err)
      consider (failed) "err \<noteq> None"
        | (dup) "err = None" "length posts > 0 \<and> Post.CreatedAt post = Post.CreatedAt (last posts)"
        | (stop) "err = None" "\<not> (length posts > 0 \<and> Post.CreatedAt post = Post.CreatedAt (last posts))"
            "postId - 1 = cursor"
        | (keep) "err = None" "\<not> (length posts > 0 \<and> Post.CreatedAt post = Post.CreatedAt (last posts))"
            "postId - 1 \<noteq> cursor"
        by blast
      then show ?thesis
      proof cases
        case failed
        have w: "walk fetcher name cursor postId posts =
            downloaded postId (walk fetcher name cursor (postId - 1) posts)"
          using True Return failed by (subst walk.simps) auto
        have ih: "downloads (walk fetcher name cursor (postId - 1) posts) =
            map (\<lambda>k. (postId - 1) - int k)
              [0..<length (downloads (walk fetcher name cursor (postId - 1) posts))]"
          using "1.IH"(1) [OF True Return] failed by simp
        show ?thesis unfolding w downloaded_def using downloads_step [OF ih] by simp
      next
        case dup
        have w: "walk fetcher name cursor postId posts =
            downloaded postId (walk fetcher name cursor (postId - 1) posts)"
          using True Return dup by (subst walk.simps) auto
        have ih: "downloads (walk fetcher name cursor (postId - 1) posts) =
            map (\<lambda>k. (postId - 1) - int k)
              [0..<length (downloads (walk fetcher name cursor (postId - 1) posts))]"
          using "1.IH"(2) [OF True Return] dup by simp
        show ?thesis unfolding w downloaded_def using downloads_step [OF ih] by simp
      next
        case stop
        have w: "walk fetcher name cursor postId posts =
            \<lparr>downloads = [postId], appended = [], collected = posts, panicked = None\<rparr>"
          using True Return stop by (subst walk.simps) auto
        show ?thesis unfolding w by simp
      next
        case keep
        have w: "walk fetcher name cursor postId posts =
            downloaded postId (was_appended postId
              (walk fetcher name cursor (postId - 1) (posts @ [post])))"
          using True Return keep by (subst walk.simps) auto
        have ih: "downloads (walk fetcher name cursor (postId - 1) (posts @ [post])) =
            map (\<lambda>k. (postId - 1) - int k)
              [0..<length (downloads (walk fetcher name cursor (postId - 1) (posts @ [post])))]"
          using "1.IH"(3) [OF True Return] keep by simp
        show ?thesis unfolding w downloaded_def was_appended_def
          using downloads_step [OF ih] by simp
      qed
    qed
  qed
qed

lemma walk_collected_length:
  "int (length posts) \<le> MAX_RSS_POSTS_COUNT \<Longrightarrow>
   int (length (collected (walk fetcher name cursor postId posts))) \<le> MAX_RSS_POSTS_COUNT"
proof (induction fetcher name cursor postId posts rule: walk.induct)
  case (1 fetcher name cursor postId posts)
  show ?case
  proof (cases "postId > 0 \<and> int (length posts) < MAX_RSS_POSTS_COUNT")
    case False
    then show ?thesis using "1.prems" by (subst walk.simps) auto
  next
    case True
    show ?thesis
    proof (cases "FetchPost fetcher name postId")
      case (Abort p)
      with True "1.prems" show ?thesis by (subst walk.simps) auto
    next
      case (Return post err)
      with True 1 show ?thesis
        by (subst walk.simps) (auto simp: downloaded_def was_appended_def)
    qed
  qed
qed

lemma walk_collected_distinct_adj:
  "distinct_adj (map Post.CreatedAt posts) \<Longrightarrow>
   distinct_adj (map Post.CreatedAt (collected (walk fetcher name cursor postId posts)))"
proof (induction fetcher name cursor postId posts rule: walk.induct)
  case (1 fetcher name cursor postId posts)
  show ?case
  proof (cases "postId > 0 \<and> int (length posts) < MAX_RSS_POSTS_COUNT")
    case False
    then show ?thesis using "1.prems" by (subst walk.simps) auto
  next
    case True
    show ?thesis
    proof (cases "FetchPost fetcher name postId")
      case (Abort p)
      with True "1.prems" show ?thesis by (subst walk.simps) auto
    next
      case (Return post err)
      have "posts = [] \<or> last (map Post.CreatedAt posts) \<noteq> Post.CreatedAt q"
        if "Post.CreatedAt q \<noteq> Post.CreatedAt (last posts)" for q :: Post
        using that by (cases "posts = []") (auto simp: last_map)
      with Return True 1 show ?thesis
        by (subst walk.simps)
          (auto simp: downloaded_def was_appended_def distinct_adj_append_iff)
    qed
  qed
qed

lemma walk_downloads_positive:
  "list_all (\<lambda>i. 0 < i) (downloads (walk fetcher name cursor postId posts))"
proof (induction fetcher name cursor postId posts rule: walk.induct)
  case (1 fetcher name cursor postId posts)
  show ?case
  proof (cases "postId > 0 \<and> int (length posts) < MAX_RSS_POSTS_COUNT")
    case False
    then show ?thesis by (subst walk.simps) auto
  next
    case True
    show ?thesis
    proof (cases "FetchPost fetcher name postId")
      case (Abort p)
      with True show ?thesis by (subst walk.simps) auto
    next
      case (Return post err)
      with True 1 show ?thesis
        by (subst walk.simps) (auto simp: downloaded_def was_appended_def)
    qed
  qed
qed

lemma FetchPost_never_aborts:
  "TelegramWebFetcher_FetchPost http_Get time_Parse channelName i \<noteq> Abort p"
  by (simp add: TelegramWebFetcher_FetchPost_def Let_def split: http_result.splits)

lemma FetchChannel_name:
  "TelegramWebFetcher_FetchChannel http_Get channelName = Return channel None \<Longrightarrow>
   Channel.Name channel = channelName"
  by (auto simp: TelegramWebFetcher_FetchChannel_def Let_def
      split: http_result.splits option.splits if_splits)

lemma insert_posts_length:
  "length (fst (insert_posts channelId ps s acc)) = length acc + length ps"
  by (induction ps arbitrary: s acc) (simp_all add: Let_def)

lemma SavePosts_length:
  "SqliteCache_SavePosts channelId ps s = (Return saved err, s') \<Longrightarrow> length saved = length ps"
  using insert_posts_length [of channelId ps s "[]"]
  by (auto simp: SqliteCache_SavePosts_def split: prod.splits)

lemma GetPosts_length:
  "SqliteCache_GetPosts channelId MAX_RSS_POSTS_COUNT s = (Return rows err, s') \<Longrightarrow>
   length rows \<le> 20"
  by (auto simp: SqliteCache_GetPosts_def MAX_RSS_POSTS_COUNT_def Let_def)

lemma length_Items_generateFeed: "length (Items (generateFeed dbc rows)) = length rows"
  by (simp add: generateFeed_def)

lemma walk_collected_cap:
  "length (collected (walk fetcher name cursor head [])) \<le> 20"
  using walk_collected_length [of "[]" fetcher name cursor head]
  by (simp add: MAX_RSS_POSTS_COUNT_def)

lemma prepareFeed_cap:
  assumes "fst (prepareFeed channelName SqliteCache fetcher s) = Return feed err"
  shows "length (Items feed) \<le> 20"
  using assms
  by (auto simp: prepareFeed_def Let_def Feed_zero_def length_Items_generateFeed
      SqliteCache_GetChannel_def SqliteCache_SaveChannel_def SqliteCache_UpdateLastPostId_def
      walk_collected_cap
      dest!: SavePosts_length GetPosts_length
      split: outcome.splits option.splits prod.splits if_splits)

text \<open>
  The ids for which the loop calls \<open>FetchPost\<close> are the head id and the ids below it,
  one by one, all positive; and the loop collects at most 20 posts.
\<close>

theorem walk_ids_descend_from_head:
  "downloads (walk fetcher name cursor head []) =
     map (\<lambda>k. head - int k) [0..<length (downloads (walk fetcher name cursor head []))]
   \<and> list_all (\<lambda>i. 0 < i) (downloads (walk fetcher name cursor head []))
   \<and> length (collected (walk fetcher name cursor head [])) \<le> 20"
  using walk_downloads [of fetcher name cursor head "[]"]
    walk_downloads_positive [of fetcher name cursor head "[]"]
    walk_collected_cap [of fetcher name cursor head]
  by simp

theorem walk_ids_descend_from_head_witness:
  "downloads (walk remote_gap ''lexfridman'' 1 3 []) =
     map (\<lambda>k. 3 - int k) [0..<length (downloads (walk remote_gap ''lexfridman'' 1 3 []))]
   \<and> list_all (\<lambda>i. 0 < i) (downloads (walk remote_gap ''lexfridman'' 1 3 []))
   \<and> length (collected (walk remote_gap ''lexfridman'' 1 3 [])) \<le> 20"
  by (rule walk_ids_descend_from_head)

text \<open>No two posts next to each other in the collected list have the same \<open>CreatedAt\<close>.\<close>

theorem walk_adjacent_times_differ:
  "distinct_adj (map Post.CreatedAt (collected (walk fetcher name cursor head [])))"
  using walk_collected_distinct_adj [of "[]" fetcher name cursor head] by simp

theorem walk_adjacent_times_differ_witness:
  "distinct_adj (map Post.CreatedAt (collected (walk remote_gap ''lexfridman'' 1 3 [])))"
  by (rule walk_adjacent_times_differ)

text \<open>
  With \<open>TelegramWebFetcher\<close> as the fetcher: the channel it returns has the name asked
  for and its \<open>FetchPost\<close> never panics, so a stale sync always leaves the head id as the
  cursor of the channel.
\<close>

theorem TelegramWebFetcher_stale_sync_sets_cursor:
  assumes "TelegramWebFetcher_FetchChannel http_Get channelName = Return channel None"
    and "stored_cursor channelName s \<noteq> Channel.LastId channel"
  shows "\<exists>row. find (\<lambda>r. DbChannel.Name r = channelName)
             (channels_table (snd (snd (prepareFeed channelName SqliteCache
                (TelegramWebFetcher http_Get time_Parse) s)))) = Some row \<and>
           DbChannel.LastId row = Channel.LastId channel"
proof -
  let ?fetcher = "TelegramWebFetcher http_Get time_Parse"
  have f: "FetchChannel ?fetcher channelName = Return channel None"
    using assms(1) by (simp add: TelegramWebFetcher_def)
  have n: "Channel.Name channel = channelName" by (rule FetchChannel_name [OF assms(1)])
  have "FetchPost ?fetcher channelName i \<noteq> Abort p" for i p
    by (simp add: TelegramWebFetcher_def FetchPost_never_aborts)
  then have w: "panicked (walk ?fetcher channelName (stored_cursor channelName s)
      (Channel.LastId channel) []) = None"
    by (rule walk_never_panics)
  show ?thesis by (rule stale_sync_row [OF f n assms(2) w])
qed

theorem TelegramWebFetcher_stale_sync_sets_cursor_witness:
  "\<exists>row. find (\<lambda>r. DbChannel.Name r = ''lexfridman'')
       (channels_table (snd (snd (prepareFeed ''lexfridman'' SqliteCache
          (TelegramWebFetcher web_lexfridman time_Parse_example) db_empty)))) = Some row \<and>
     DbChannel.LastId row = 293"
proof -
  have f: "TelegramWebFetcher_FetchChannel web_lexfridman ''lexfridman'' =
      Return channel_head_293 None"
    by code_simp
  have c: "stored_cursor ''lexfridman'' db_empty \<noteq> Channel.LastId channel_head_293"
    by code_simp
  have h: "Channel.LastId channel_head_293 = 293" by (simp add: channel_head_293_def)
  show ?thesis
    using TelegramWebFetcher_stale_sync_sets_cursor [OF f c, of time_Parse_example] h by simp
qed

text \<open>The feed \<open>prepareFeed\<close> returns over \<open>SqliteCache\<close> never has more than 20 items.\<close>

theorem prepareFeed_at_most_20_items:
  assumes "fst (prepareFeed channelName SqliteCache fetcher s) = Return feed err"
  shows "length (Items feed) \<le> 20"
  by (rule prepareFeed_cap [OF assms])

theorem prepareFeed_at_most_20_items_witness:
  "fst (prepareFeed ''lexfridman'' SqliteCache remote_gap store_cursor_1) =
     Return (generateFeed (hd (channels_table store_cursor_1))
       (posts_table (snd (snd (prepareFeed ''lexfridman'' SqliteCache remote_gap store_cursor_1)))))
       None
   \<and> length (Items (generateFeed (hd (channels_table store_cursor_1))
       (posts_table (snd (snd (prepareFeed ''lexfridman'' SqliteCache remote_gap
          store_cursor_1)))))) \<le> 20"
proof -
  have e: "fst (prepareFeed ''lexfridman'' SqliteCache remote_gap store_cursor_1) =
     Return (generateFeed (hd (channels_table store_cursor_1))
       (posts_table (snd (snd (prepareFeed ''lexfridman'' SqliteCache remote_gap store_cursor_1)))))
       None"
    by code_simp
  show ?thesis by (rule conjI [OF e prepareFeed_at_most_20_items [OF e]])
qed

text \<open>
  The scenario of the specification: with no row for the channel, head id 293 and only the
  five newest posts fetched, \<open>prepareFeed\<close> calls \<open>FetchPost\<close> for all 293 ids,
  returns the five posts, newest first, and leaves 293 as the cursor.
\<close>

theorem scenario_head_293:
  "(case prepareFeed ''lexfridman'' SqliteCache remote_293 db_empty of
      (result, ids, s) \<Rightarrow>
        result = Return (generateFeed (new_row channel_head_293 db_empty) (posts_table s)) None
        \<and> map DbPost.CreatedAt (posts_table s) = [1293, 1292, 1291, 1290, 1289]
        \<and> map DbPost.Content (posts_table s) = [''293'', ''292'', ''291'', ''290'', ''289'']
        \<and> length ids = 293
        \<and> stored_cursor ''lexfridman'' s = 293)"
  by code_simp

end
